theory Spec2Isabelle
  imports Complex_Main "HOL-Library.Sublist"
begin

section \<open>Text primitives\<close>

text \<open>
  Python strings are modelled as \<open>string\<close> (lists of \<open>char\<close>).  The character classes
  below are those of Python's \<open>str\<close> methods and of the \<open>re\<close> module on ASCII text
  (code points below 128); transcripts, terms, fillers and shortcut strings are taken to
  be ASCII.
  Python computes similarities and thresholds in double precision; they are modelled as
  exact rationals.  Every similarity is a quotient \<open>2 * m / t\<close> of small integers and
  every threshold a two-digit decimal, so the comparisons agree with the rounded ones
  for all strings shorter than \<open>10 ^ 15\<close> characters.  The score that ranks the
  candidates is exact as well; the general results on the replacement loop hold for any
  order of the candidates, and the examples have scores that lie far apart.
\<close>

definition code_point :: "char \<Rightarrow> nat" where
  "code_point c = of_char c"

definition is_upper :: "char \<Rightarrow> bool" where
  "is_upper c = (65 \<le> code_point c \<and> code_point c \<le> 90)"

definition is_lower :: "char \<Rightarrow> bool" where
  "is_lower c = (97 \<le> code_point c \<and> code_point c \<le> 122)"

definition is_digit :: "char \<Rightarrow> bool" where
  "is_digit c = (48 \<le> code_point c \<and> code_point c \<le> 57)"

definition is_alnum :: "char \<Rightarrow> bool" where
  "is_alnum c = (is_upper c \<or> is_lower c \<or> is_digit c)"

definition is_space :: "char \<Rightarrow> bool" where
  \<comment> \<open>\<open>str.isspace\<close> and the regex class \<open>\s\<close>: tab to carriage return, the four
      separators 28 to 31, and the space\<close>
  "is_space c = ((9 \<le> code_point c \<and> code_point c \<le> 13) \<or> (28 \<le> code_point c \<and> code_point c \<le> 32))"

definition is_word_char :: "char \<Rightarrow> bool" where
  \<comment> \<open>the regex class \<open>\w\<close>\<close>
  "is_word_char c = (is_alnum c \<or> c = CHR ''_'')"

definition lower_char :: "char \<Rightarrow> char" where
  "lower_char c = (if is_upper c then char_of (code_point c + 32) else c)"

definition upper_char :: "char \<Rightarrow> char" where
  "upper_char c = (if is_lower c then char_of (code_point c - 32) else c)"

definition lower :: "string \<Rightarrow> string" where
  \<comment> \<open>\<open>str.lower\<close>\<close>
  "lower s = map lower_char s"

definition remove_spaces :: "string \<Rightarrow> string" where
  \<comment> \<open>\<open>s.replace(' ', '')\<close>\<close>
  "remove_spaces s = filter (\<lambda>c. c \<noteq> CHR '' '') s"

fun split_acc :: "string \<Rightarrow> string \<Rightarrow> string list" where
  "split_acc w [] = (if w = [] then [] else [rev w])"
| "split_acc w (c # cs) =
     (if is_space c then (if w = [] then split_acc [] cs else rev w # split_acc [] cs)
      else split_acc (c # w) cs)"

definition split_ws :: "string \<Rightarrow> string list" where
  \<comment> \<open>\<open>str.split()\<close> with no separator: the maximal runs of non-whitespace\<close>
  "split_ws s = split_acc [] s"

fun join_with :: "string \<Rightarrow> string list \<Rightarrow> string" where
  \<comment> \<open>\<open>sep.join(ws)\<close>\<close>
  "join_with sep [] = []"
| "join_with sep [w] = w"
| "join_with sep (w # v # ws) = w @ sep @ join_with sep (v # ws)"

fun find_from :: "int \<Rightarrow> string \<Rightarrow> string \<Rightarrow> int" where
  "find_from i pat [] = (if pat = [] then i else - 1)"
| "find_from i pat (c # cs) = (if prefix pat (c # cs) then i else find_from (i + 1) pat cs)"

definition py_find :: "string \<Rightarrow> string \<Rightarrow> int" where
  \<comment> \<open>\<open>s.find(pat)\<close>: the index of the first occurrence, \<open>-1\<close> when there is none\<close>
  "py_find s pat = find_from 0 pat s"

section \<open>Phonetic form (\<open>Dictionary._to_phonetic\<close>)\<close>

function sub_literal :: "string \<Rightarrow> string \<Rightarrow> string \<Rightarrow> string" where
  \<comment> \<open>\<open>re.sub(pat, rep, s)\<close> for a pattern of ordinary characters: the occurrences are
      replaced from the left, without overlap\<close>
  "sub_literal pat rep [] = []"
| "sub_literal pat rep (c # cs) =
     (if pat \<noteq> [] \<and> prefix pat (c # cs) then rep @ sub_literal pat rep (drop (length pat) (c # cs))
      else c # sub_literal pat rep cs)"
  by pat_completeness auto
termination
  by (relation "measure (\<lambda>(pat, rep, s). length s)") (auto simp: neq_Nil_conv)

fun sub_at_end :: "string \<Rightarrow> string \<Rightarrow> string \<Rightarrow> string" where
  \<comment> \<open>\<open>re.sub(pat + '$', rep, s)\<close>: \<open>$\<close> matches at the end of the string and before a
      newline that ends it; what follows the match is empty or that newline\<close>
  "sub_at_end pat rep [] = []"
| "sub_at_end pat rep (c # cs) =
     (if prefix pat (c # cs) \<and> drop (length pat) (c # cs) \<in> {[], [CHR 0x0A]}
      then rep @ drop (length pat) (c # cs)
      else c # sub_at_end pat rep cs)"

function collapse_runs :: "string \<Rightarrow> string" where
  \<comment> \<open>\<open>re.sub(r'(.)\1+', r'\1', s)\<close>: a run of one character, other than newline,
      becomes a single instance\<close>
  "collapse_runs [] = []"
| "collapse_runs (c # cs) =
     (if c = CHR 0x0A then c # collapse_runs cs
      else c # collapse_runs (dropWhile (\<lambda>d. d = c) cs))"
  by pat_completeness auto
termination
  by (relation "measure length") (auto simp: less_Suc_eq_le length_dropWhile_le)

datatype subst = Lit string string | AtEnd string string | Runs

fun apply_subst :: "subst \<Rightarrow> string \<Rightarrow> string" where
  "apply_subst (Lit pat rep) s = sub_literal pat rep s"
| "apply_subst (AtEnd pat rep) s = sub_at_end pat rep s"
| "apply_subst Runs s = collapse_runs s"

definition substitutions :: "subst list" where
  "substitutions =
    [Lit ''effects'' ''fx'', Lit ''efects'' ''fx'', Lit ''efx'' ''fx'',
     Lit ''ea'' ''e'', Lit ''ee'' ''e'', Lit ''ai'' ''a'', Lit ''ay'' ''a'',
     Lit ''oo'' ''u'', Lit ''ou'' ''o'', Lit ''oi'' ''oy'', Lit ''ie'' ''i'',
     Lit ''ph'' ''f'', Lit ''ck'' ''k'', Lit ''x'' ''ks'', Lit ''qu'' ''kw'',
     Lit ''ce'' ''se'', Lit ''ci'' ''si'', Lit ''cy'' ''sy'',
     Lit ''tion'' ''shun'', Lit ''sion'' ''zhun'', Lit ''ght'' ''t'',
     Lit ''wh'' ''w'', Lit ''wr'' ''r'', Lit ''kn'' ''n'', Lit ''gn'' ''n'',
     AtEnd ''mb'' ''m'', Lit ''mn'' ''n'',
     Runs,
     AtEnd ''e'' '''', AtEnd ''ed'' ''d'', AtEnd ''ing'' ''n'']"

definition to_phonetic :: "string \<Rightarrow> string" where
  "to_phonetic text =
     filter (\<lambda>c. is_lower c \<or> is_digit c)
       (foldl (\<lambda>result sb. apply_subst sb result) (remove_spaces (lower text)) substitutions)"

section \<open>Edit similarity (\<open>difflib.SequenceMatcher(None, a, b).ratio()\<close>)\<close>

text \<open>
  \<open>Dictionary._similarity\<close> calls the matcher of Python's standard library with no junk
  predicate and the default \<open>autojunk\<close>.  The slices \<open>a[alo:ahi]\<close> and \<open>b[blo:bhi]\<close> of
  the library's index-based code are the lists \<open>as\<close> and \<open>bs\<close> here; positions are
  relative to them.
\<close>

definition bpopular :: "string \<Rightarrow> char list" where
  \<comment> \<open>the elements purged from \<open>b2j\<close> as popular, when \<open>b\<close> has 200 elements or more\<close>
  "bpopular b =
     (let n = length b in
      if n \<ge> 200 then filter (\<lambda>elt. count_list b elt > n div 100 + 1) (remdups b) else [])"

definition new_row :: "char list \<Rightarrow> char \<Rightarrow> string \<Rightarrow> nat list \<Rightarrow> nat list" where
  \<comment> \<open>\<open>newj2len\<close> as a row over the positions of \<open>bs\<close> (\<open>0\<close> where the dictionary has no
      entry): \<open>j2len.get(j - 1, 0) + 1\<close> at every \<open>j\<close> listed in \<open>b2j\<close> for the element \<open>x\<close>\<close>
  "new_row popular x bs j2len =
     map (\<lambda>(c, k). if c = x \<and> x \<notin> set popular then k + 1 else 0) (zip bs (0 # j2len))"

fun upd_best :: "nat \<Rightarrow> nat \<times> nat \<times> nat \<Rightarrow> nat \<times> nat \<Rightarrow> nat \<times> nat \<times> nat" where
  "upd_best i (besti, bestj, bestsize) (j, k) =
     (if k > bestsize then (i + 1 - k, j + 1 - k, k) else (besti, bestj, bestsize))"

fun scan_row :: "char list \<Rightarrow> string \<Rightarrow> nat list \<times> nat \<times> nat \<times> nat \<Rightarrow> nat \<times> char
    \<Rightarrow> nat list \<times> nat \<times> nat \<times> nat" where
  "scan_row popular bs (j2len, best) (i, x) =
     (let newj2len = new_row popular x bs j2len
      in (newj2len, foldl (upd_best i) best (enumerate 0 newj2len)))"

definition longest_junk_free :: "char list \<Rightarrow> string \<Rightarrow> string \<Rightarrow> nat \<times> nat \<times> nat" where
  "longest_junk_free popular as bs =
     snd (foldl (scan_row popular bs) (replicate (length bs) 0, (0, 0, 0)) (enumerate 0 as))"

function extend_left :: "string \<Rightarrow> string \<Rightarrow> nat \<times> nat \<times> nat \<Rightarrow> nat \<times> nat \<times> nat" where
  "extend_left as bs (besti, bestj, bestsize) =
     (if besti > 0 \<and> bestj > 0 \<and> as ! (besti - 1) = bs ! (bestj - 1)
      then extend_left as bs (besti - 1, bestj - 1, bestsize + 1)
      else (besti, bestj, bestsize))"
  by pat_completeness auto
termination
  by (relation "measure (\<lambda>(as, bs, i, j, k). i)") auto

declare extend_left.simps [simp del]

function extend_right :: "string \<Rightarrow> string \<Rightarrow> nat \<times> nat \<times> nat \<Rightarrow> nat \<times> nat \<times> nat" where
  "extend_right as bs (besti, bestj, bestsize) =
     (if besti + bestsize < length as \<and> bestj + bestsize < length bs
         \<and> as ! (besti + bestsize) = bs ! (bestj + bestsize)
      then extend_right as bs (besti, bestj, bestsize + 1)
      else (besti, bestj, bestsize))"
  by pat_completeness auto
termination
  by (relation "measure (\<lambda>(as, bs, i, j, k). length as - (i + k))") auto

declare extend_right.simps [simp del]

definition find_longest_match :: "char list \<Rightarrow> string \<Rightarrow> string \<Rightarrow> nat \<times> nat \<times> nat" where
  \<comment> \<open>no element is junk, so only the two loops that extend by non-junk elements run\<close>
  "find_longest_match popular as bs =
     extend_right as bs (extend_left as bs (longest_junk_free popular as bs))"

lemma upd_best_start:
  assumes "i < n" and "case best of (bi, bj, bk) \<Rightarrow> bi < n \<or> bi = 0 \<and> bk = 0"
  shows "case upd_best i best jk of (bi, bj, bk) \<Rightarrow> bi < n \<or> bi = 0 \<and> bk = 0"
  using assms by (cases best; cases jk) auto

lemma foldl_upd_best_start:
  assumes "i < n" and "case best of (bi, bj, bk) \<Rightarrow> bi < n \<or> bi = 0 \<and> bk = 0"
  shows "case foldl (upd_best i) best jks of (bi, bj, bk) \<Rightarrow> bi < n \<or> bi = 0 \<and> bk = 0"
  using assms(2)
proof (induction jks arbitrary: best)
  case Nil
  then show ?case by simp
next
  case (Cons jk jks)
  from upd_best_start [OF assms(1) Cons.prems] show ?case
    by (simp add: Cons.IH)
qed

lemma foldl_scan_row_start:
  assumes "\<forall>ix \<in> set ixs. fst ix < n" and "case snd st of (bi, bj, bk) \<Rightarrow> bi < n \<or> bi = 0 \<and> bk = 0"
  shows "case snd (foldl (scan_row popular bs) st ixs) of (bi, bj, bk) \<Rightarrow> bi < n \<or> bi = 0 \<and> bk = 0"
  using assms
proof (induction ixs arbitrary: st)
  case Nil
  then show ?case by simp
next
  case (Cons ix ixs)
  obtain row best where st: "st = (row, best)" by (cases st)
  obtain i x where ix: "ix = (i, x)" by (cases ix)
  from Cons.prems have "i < n" and "case best of (bi, bj, bk) \<Rightarrow> bi < n \<or> bi = 0 \<and> bk = 0"
    by (simp_all add: st ix)
  then have "case snd (scan_row popular bs st ix) of (bi, bj, bk) \<Rightarrow> bi < n \<or> bi = 0 \<and> bk = 0"
    by (simp add: st ix Let_def foldl_upd_best_start)
  with Cons.prems(1) show ?case
    by (simp add: Cons.IH)
qed

lemma longest_junk_free_start:
  "case longest_junk_free popular as bs of (bi, bj, bk) \<Rightarrow> bi < length as \<or> bi = 0 \<and> bk = 0"
  unfolding longest_junk_free_def
  by (rule foldl_scan_row_start) (auto simp: in_set_enumerate_eq)

lemma extend_left_start:
  "(case best of (bi, bj, bk) \<Rightarrow> bi < length as \<or> bi = 0 \<and> bk = 0) \<Longrightarrow>
   (case extend_left as bs best of (bi, bj, bk) \<Rightarrow> bi < length as \<or> bi = 0 \<and> bk = 0)"
proof (induction as bs best rule: extend_left.induct)
  case (1 as bs besti bestj bestsize)
  show ?case
  proof (cases "besti > 0 \<and> bestj > 0 \<and> as ! (besti - 1) = bs ! (bestj - 1)")
    case True
    with "1.prems" have "case (besti - 1, bestj - 1, bestsize + 1) of
        (bi, bj, bk) \<Rightarrow> bi < length as \<or> bi = 0 \<and> bk = 0"
      by auto
    from "1.IH" [OF True this] have "case extend_left as bs (besti - 1, bestj - 1, bestsize + 1) of
        (bi, bj, bk) \<Rightarrow> bi < length as \<or> bi = 0 \<and> bk = 0" .
    moreover have "extend_left as bs (besti, bestj, bestsize)
        = extend_left as bs (besti - 1, bestj - 1, bestsize + 1)"
      using True by (subst extend_left.simps) (simp only: if_True simp_thms)
    ultimately show ?thesis by (simp only:)
  next
    case False
    then have "extend_left as bs (besti, bestj, bestsize) = (besti, bestj, bestsize)"
      by (subst extend_left.simps) (simp only: if_False simp_thms)
    with "1.prems" show ?thesis by (simp only:)
  qed
qed

lemma extend_right_start:
  "(case best of (bi, bj, bk) \<Rightarrow> bi < length as \<or> bi = 0 \<and> bk = 0) \<Longrightarrow>
   (case extend_right as bs best of (bi, bj, bk) \<Rightarrow> bi < length as \<or> bi = 0 \<and> bk = 0)"
proof (induction as bs best rule: extend_right.induct)
  case (1 as bs besti bestj bestsize)
  show ?case
  proof (cases "besti + bestsize < length as \<and> bestj + bestsize < length bs
         \<and> as ! (besti + bestsize) = bs ! (bestj + bestsize)")
    case True
    then have "case (besti, bestj, bestsize + 1) of
        (bi, bj, bk) \<Rightarrow> bi < length as \<or> bi = 0 \<and> bk = 0"
      by auto
    from "1.IH" [OF True this] have "case extend_right as bs (besti, bestj, bestsize + 1) of
        (bi, bj, bk) \<Rightarrow> bi < length as \<or> bi = 0 \<and> bk = 0" .
    moreover have "extend_right as bs (besti, bestj, bestsize)
        = extend_right as bs (besti, bestj, bestsize + 1)"
      using True by (subst extend_right.simps) (simp only: if_True simp_thms)
    ultimately show ?thesis by (simp only:)
  next
    case False
    then have "extend_right as bs (besti, bestj, bestsize) = (besti, bestj, bestsize)"
      by (subst extend_right.simps) (simp only: if_False simp_thms)
    with "1.prems" show ?thesis by (simp only:)
  qed
qed

lemma find_longest_match_start:
  assumes "find_longest_match popular as bs = (i, j, k)" and "k \<noteq> 0"
  shows "i < length as"
proof -
  have "case extend_left as bs (longest_junk_free popular as bs) of
          (bi, bj, bk) \<Rightarrow> bi < length as \<or> bi = 0 \<and> bk = 0"
    by (rule extend_left_start) (rule longest_junk_free_start)
  then have "case find_longest_match popular as bs of
          (bi, bj, bk) \<Rightarrow> bi < length as \<or> bi = 0 \<and> bk = 0"
    unfolding find_longest_match_def by (rule extend_right_start)
  with assms show ?thesis by simp
qed

function matching_total :: "char list \<Rightarrow> string \<Rightarrow> string \<Rightarrow> nat" where
  \<comment> \<open>the sum of the sizes of \<open>get_matching_blocks()\<close>: the longest match, then the
      pieces to its left and to its right\<close>
  "matching_total popular as bs =
     (case find_longest_match popular as bs of
        (i, j, k) \<Rightarrow>
          if k = 0 then 0
          else (if 0 < i \<and> 0 < j then matching_total popular (take i as) (take j bs) else 0)
             + k
             + (if i + k < length as \<and> j + k < length bs
                then matching_total popular (drop (i + k) as) (drop (j + k) bs) else 0))"
  by pat_completeness auto
termination
proof (relation "measure (\<lambda>(popular, as, bs). length as + length bs)", goal_cases)
  case 1
  show ?case by simp
next
  case 2
  then show ?case
    by (auto dest: find_longest_match_start [OF sym] simp: min_def)
next
  case 3
  then show ?case by auto
qed

declare matching_total.simps [simp del]

definition ratio :: "string \<Rightarrow> string \<Rightarrow> rat" where
  "ratio a b =
     (let matches = matching_total (bpopular b) a b; length' = length a + length b
      in if length' \<noteq> 0 then 2 * of_nat matches / of_nat length' else 1)"

section \<open>Dictionary matching (\<open>src/dictionary.py\<close>)\<close>

definition similarity :: "string \<Rightarrow> string \<Rightarrow> rat" where
  "similarity a b = ratio a b"

definition phonetic_similarity :: "string \<Rightarrow> string \<Rightarrow> rat" where
  \<comment> \<open>the phonetic cache holds \<open>to_phonetic term\<close> for every cached term, so the lookup
      with its default is \<open>to_phonetic term\<close>\<close>
  "phonetic_similarity text term =
     (let text_phonetic = to_phonetic text;
          term_phonetic = to_phonetic term;
          phonetic_sim = similarity text_phonetic term_phonetic;
          raw_sim = similarity (remove_spaces (lower text)) (lower term)
      in max phonetic_sim raw_sim)"

definition ignore_words :: "string list" where
  "ignore_words =
    [''the'', ''a'', ''an'', ''to'', ''of'', ''in'', ''on'', ''at'', ''by'', ''for'',
     ''is'', ''it'', ''be'', ''as'', ''or'', ''and'', ''but'', ''if'', ''so'', ''no'',
     ''out'', ''up'', ''do'', ''my'', ''me'', ''we'', ''he'', ''she'', ''you'', ''i'',
     ''was'', ''has'', ''had'', ''are'', ''were'', ''been'', ''have'', ''get'', ''got'']"

type_synonym match = "string \<times> string \<times> rat \<times> int \<times> int"
  \<comment> \<open>\<open>(original, replacement, similarity, start, end)\<close>\<close>

definition threshold_for :: "string \<Rightarrow> string \<Rightarrow> rat" where
  "threshold_for phrase term =
     (let threshold = (if length term \<le> 4 then 90 / 100
                       else if length term \<le> 6 then 80 / 100 else 75 / 100);
          threshold = (if length (split_ws phrase) = 1 then max threshold (85 / 100)
                       else threshold);
          threshold = (if of_nat (length (remove_spaces phrase)) > of_nat (length term) * (15 / 10 :: rat)
                       then max threshold (90 / 100) else threshold)
      in threshold)"

definition match_window :: "string \<Rightarrow> string \<Rightarrow> string \<Rightarrow> match list" where
  \<comment> \<open>the body of the innermost loop of \<open>_find_matches_in_text\<close>: what one window appends\<close>
  "match_window text term phrase =
     (if list_all (\<lambda>w. w \<in> set ignore_words) (split_ws (lower phrase)) then []
      else if of_nat (length (remove_spaces phrase)) < of_nat (length term) * (4 / 10 :: rat) then []
      else
        let sim = phonetic_similarity phrase term
        in if sim \<ge> threshold_for phrase term
           then (let start = py_find (lower text) (lower phrase)
                 in if start \<ge> 0
                    then [(phrase, term, sim, start, start + int (length phrase))]
                    else [])
           else [])"

definition find_matches_in_text :: "string list \<Rightarrow> string \<Rightarrow> match list" where
  "find_matches_in_text terms text =
     (let words = split_ws text
      in if words = [] \<or> terms = [] then []
         else concat (map (\<lambda>term.
                let term_word_count = length (split_ws term);
                    max_window = max 4 (term_word_count + 1)
                in concat (map (\<lambda>window_size.
                     concat (map (\<lambda>i. match_window text term
                                          (join_with '' '' (take window_size (drop i words))))
                                 [0 ..< length words - window_size + 1]))
                     [1 ..< min (max_window + 1) (length words + 1)]))
              terms))"

definition match_score :: "match \<Rightarrow> rat" where
  "match_score m =
     (case m of (original, replacement, sim, start, end') \<Rightarrow>
        let len_ratio = of_nat (length (remove_spaces original)) / of_nat (max (length replacement) 1);
            len_score = 1 - min \<bar>len_ratio - 12 / 10\<bar> 1
        in - (sim * 10 + len_score))"

fun sub_first_ignorecase :: "string \<Rightarrow> string \<Rightarrow> string \<Rightarrow> string" where
  \<comment> \<open>\<open>re.compile(re.escape(original), re.IGNORECASE).sub(replacement, result, count=1)\<close>,
      for a replacement without backslashes\<close>
  "sub_first_ignorecase original replacement [] = (if original = [] then replacement else [])"
| "sub_first_ignorecase original replacement (c # cs) =
     (if prefix (lower original) (lower (c # cs))
      then replacement @ drop (length original) (c # cs)
      else c # sub_first_ignorecase original replacement cs)"

definition contains_term_word :: "string \<Rightarrow> string \<Rightarrow> bool" where
  \<comment> \<open>\<open>skip_this\<close>: the original has more than one word and one of them is the term\<close>
  "contains_term_word original replacement =
     (let original_words = split_ws (lower original)
      in length original_words > 1 \<and> list_ex (\<lambda>word. word = lower replacement) original_words)"

definition overlaps_applied :: "int \<Rightarrow> int \<Rightarrow> (int \<times> int) list \<Rightarrow> bool" where
  "overlaps_applied start end' applied =
     list_ex (\<lambda>(applied_start, applied_end). \<not> (end' \<le> applied_start \<or> start \<ge> applied_end)) applied"

definition apply_match :: "string \<times> (int \<times> int) list \<Rightarrow> match \<Rightarrow> string \<times> (int \<times> int) list" where
  \<comment> \<open>one pass of the replacement loop of \<open>apply\<close> over the state \<open>(result, applied)\<close>\<close>
  "apply_match st m =
     (case st of (result, applied) \<Rightarrow>
      case m of (original, replacement, sim, start, end') \<Rightarrow>
        if lower original = lower replacement then st
        else if contains_term_word original replacement then st
        else if overlaps_applied start end' applied then st
        else
          let new_result = sub_first_ignorecase original replacement result
          in if new_result \<noteq> result then (new_result, applied @ [(start, end')]) else st)"

definition ranked :: "match list \<Rightarrow> match list" where
  \<comment> \<open>\<open>matches.sort(key=match_score)\<close>: ascending in the key, stable\<close>
  "ranked matches = sort_key match_score matches"

definition apply_loop :: "string \<Rightarrow> match list \<Rightarrow> string \<times> (int \<times> int) list" where
  "apply_loop text matches = foldl apply_match (text, []) matches"

definition dictionary_apply :: "string list \<Rightarrow> string \<Rightarrow> string" where
  \<comment> \<open>\<open>Dictionary.apply\<close>, with the loaded term list as a parameter\<close>
  "dictionary_apply terms text =
     (if terms = [] \<or> text = [] then text
      else
        let matches = find_matches_in_text terms text
        in if matches = [] then text
           else fst (apply_loop text (ranked matches)))"

definition no_overlap :: "int \<times> int \<Rightarrow> int \<times> int \<Rightarrow> bool" where
  \<comment> \<open>the test of the loop, for a committed span and a later one\<close>
  "no_overlap committed later = (snd later \<le> fst committed \<or> fst later \<ge> snd committed)"

section \<open>Filler scrubbing (\<open>src/scrubber.py\<close>)\<close>

definition word_boundary :: "char option \<Rightarrow> string \<Rightarrow> bool" where
  \<comment> \<open>the regex assertion \<open>\b\<close> between the previous character, if any, and the rest\<close>
  "word_boundary prev s =
     ((case prev of None \<Rightarrow> False | Some c \<Rightarrow> is_word_char c)
        \<noteq> (case s of [] \<Rightarrow> False | c # cs \<Rightarrow> is_word_char c))"

definition char_before :: "char option \<Rightarrow> string \<Rightarrow> char option" where
  \<comment> \<open>the character before the current position, once \<open>consumed\<close> has been read\<close>
  "char_before prev consumed = (case rev consumed of [] \<Rightarrow> prev | c # cs \<Rightarrow> Some c)"

fun optional_punct :: "string \<Rightarrow> nat" where
  \<comment> \<open>the length of what \<open>[,.]?\<close> takes at the head of the string\<close>
  "optional_punct [] = 0"
| "optional_punct (c # cs) = (if c = CHR '','' \<or> c = CHR ''.'' then 1 else 0)"

definition match_filler :: "string \<Rightarrow> char option \<Rightarrow> string \<Rightarrow> nat option" where
  \<comment> \<open>the length of the match of \<open>(?i)\b\<close> filler \<open>\b[,.]?\s*\<close> that starts here, if there
      is one; the optional punctuation and the whitespace are greedy and nothing follows
      them, so the first attempt is the match\<close>
  "match_filler filler prev s =
     (let n = length filler;
          rest = drop n s;
          prev' = char_before prev (take n s)
      in if word_boundary prev s \<and> prefix (lower filler) (lower s) \<and> word_boundary prev' rest
         then
           (let punct = optional_punct rest;
                spaces = length (takeWhile is_space (drop punct rest))
            in Some (n + punct + spaces))
         else None)"

lemma prefix_lower_length: "prefix (lower filler) (lower s) \<Longrightarrow> length filler \<le> length s"
  by (drule prefix_length_le) (simp add: lower_def)

lemma match_filler_length: "match_filler filler prev s = Some n \<Longrightarrow> n \<le> length s"
proof -
  assume m: "match_filler filler prev s = Some n"
  let ?rest = "drop (length filler) s"
  let ?punct = "optional_punct ?rest"
  from m have pre: "prefix (lower filler) (lower s)"
    and n: "n = length filler + ?punct + length (takeWhile is_space (drop ?punct ?rest))"
    by (auto simp: match_filler_def Let_def split: if_splits)
  have "?punct \<le> length ?rest"
    by (cases ?rest) auto
  moreover have "length (takeWhile is_space (drop ?punct ?rest)) \<le> length ?rest - ?punct"
    using length_takeWhile_le [of is_space "drop ?punct ?rest"] by simp
  moreover from pre have "length filler \<le> length s"
    by (rule prefix_lower_length)
  ultimately show ?thesis
    using n by simp
qed

function sub_filler :: "string \<Rightarrow> char option \<Rightarrow> string \<Rightarrow> string" where
  \<comment> \<open>\<open>re.sub(pattern, ' ', result)\<close> for the pattern of one filler; after an empty match
      the search resumes one character further\<close>
  "sub_filler filler prev s =
     (case match_filler filler prev s of
        Some n \<Rightarrow>
          if n = 0
          then '' '' @ (case s of [] \<Rightarrow> [] | c # cs \<Rightarrow> c # sub_filler filler (Some c) cs)
          else '' '' @ sub_filler filler (char_before prev (take n s)) (drop n s)
      | None \<Rightarrow> (case s of [] \<Rightarrow> [] | c # cs \<Rightarrow> c # sub_filler filler (Some c) cs))"
  by pat_completeness auto
termination
  apply (relation "measure (\<lambda>(filler, prev, s). length s)")
    apply simp_all
  apply (drule match_filler_length)
  apply arith
  done

declare sub_filler.simps [simp del]

definition is_punct :: "char \<Rightarrow> bool" where
  \<comment> \<open>the class \<open>[.,!?]\<close>\<close>
  "is_punct c = (c = CHR ''.'' \<or> c = CHR '','' \<or> c = CHR ''!'' \<or> c = CHR ''?'')"

function collapse_spaces :: "string \<Rightarrow> string" where
  \<comment> \<open>\<open>re.sub(r'\s+', ' ', text)\<close>\<close>
  "collapse_spaces [] = []"
| "collapse_spaces (c # cs) =
     (if is_space c then CHR '' '' # collapse_spaces (dropWhile is_space cs)
      else c # collapse_spaces cs)"
  by pat_completeness auto
termination
  by (relation "measure length") (auto simp: less_Suc_eq_le length_dropWhile_le)

function space_before_punct :: "string \<Rightarrow> string" where
  \<comment> \<open>\<open>re.sub(r'\s+([.,!?])', r'\1', text)\<close>\<close>
  "space_before_punct [] = []"
| "space_before_punct (c # cs) =
     (if is_space c
      then (case dropWhile is_space cs of
              [] \<Rightarrow> c # space_before_punct cs
            | p # rest \<Rightarrow> if is_punct p then p # space_before_punct rest
                          else c # space_before_punct cs)
      else c # space_before_punct cs)"
  by pat_completeness auto
termination
proof (relation "measure length", goal_cases)
  case (3 c cs p rest)
  from length_dropWhile_le [of is_space cs] 3 show ?case by simp
qed simp_all

function adjacent_punct :: "string \<Rightarrow> string" where
  \<comment> \<open>\<open>re.sub(r'([.,!?])\s*([.,!?])', r'\1', text)\<close>\<close>
  "adjacent_punct [] = []"
| "adjacent_punct (c # cs) =
     (if is_punct c
      then (case dropWhile is_space cs of
              [] \<Rightarrow> c # adjacent_punct cs
            | p # rest \<Rightarrow> if is_punct p then c # adjacent_punct rest
                          else c # adjacent_punct cs)
      else c # adjacent_punct cs)"
  by pat_completeness auto
termination
proof (relation "measure length", goal_cases)
  case (3 c cs p rest)
  from length_dropWhile_le [of is_space cs] 3 show ?case by simp
qed simp_all

function capitalize_sentences :: "string \<Rightarrow> string" where
  \<comment> \<open>\<open>re.sub(r'([.!?]\s+)([a-z])', lambda m: m.group(1) + m.group(2).upper(), text)\<close>\<close>
  "capitalize_sentences [] = []"
| "capitalize_sentences (c # cs) =
     (if (c = CHR ''.'' \<or> c = CHR ''!'' \<or> c = CHR ''?'') \<and> takeWhile is_space cs \<noteq> []
      then (case dropWhile is_space cs of
              [] \<Rightarrow> c # capitalize_sentences cs
            | l # rest \<Rightarrow> if is_lower l
                          then c # takeWhile is_space cs @ upper_char l # capitalize_sentences rest
                          else c # capitalize_sentences cs)
      else c # capitalize_sentences cs)"
  by pat_completeness auto
termination
proof (relation "measure length", goal_cases)
  case (3 c cs l rest)
  from length_dropWhile_le [of is_space cs] 3 show ?case by simp
qed simp_all

definition capitalize_first :: "string \<Rightarrow> string" where
  "capitalize_first text =
     (case text of [] \<Rightarrow> [] | c # cs \<Rightarrow> if is_lower c then upper_char c # cs else text)"

definition strip :: "string \<Rightarrow> string" where
  \<comment> \<open>\<open>str.strip()\<close>\<close>
  "strip s = rev (dropWhile is_space (rev (dropWhile is_space s)))"

definition cleanup :: "string \<Rightarrow> string" where
  "cleanup text =
     strip (capitalize_first (capitalize_sentences (adjacent_punct
       (space_before_punct (collapse_spaces text)))))"

definition sorted_fillers :: "string list \<Rightarrow> string list" where
  \<comment> \<open>\<open>sorted(fillers, key=len, reverse=True)\<close>: descending, equal lengths in their
      original order\<close>
  "sorted_fillers fillers = rev (sort_key length (rev fillers))"

definition scrub :: "bool \<Rightarrow> string list \<Rightarrow> string \<Rightarrow> string" where
  \<comment> \<open>\<open>Scrubber.scrub\<close>, with the loaded \<open>enabled\<close> flag and filler list as parameters\<close>
  "scrub enabled fillers text =
     (if \<not> enabled \<or> text = [] then text
      else cleanup (foldl (\<lambda>result filler. sub_filler filler None result) text
                      (sorted_fillers fillers)))"

section \<open>Shortcut strings and keys (\<open>src/app.py\<close>)\<close>

text \<open>
  The keys of the \<open>pynput\<close> library: the members of its \<open>Key\<close> enumeration that the
  program names, any other member, and \<open>KeyCode\<close> objects with their optional character
  and virtual key code.  \<open>KeyCode.from_char\<close> builds a key code that has a character only.
\<close>

datatype key =
    Key_ctrl_l | Key_ctrl_r | Key_alt_l | Key_alt_r | Key_shift_l | Key_shift_r
  | Key_space | Key_enter | Key_tab | Key_esc | Key_backspace | Key_delete | Key_insert
  | Key_home | Key_end | Key_page_up | Key_page_down
  | Key_up | Key_down | Key_left | Key_right
  | Key_f nat
  | Key_other string
  | KeyCode "string option" "nat option"

definition from_char :: "string \<Rightarrow> key" where
  "from_char char = KeyCode (Some char) None"

fun normalize_key :: "key \<Rightarrow> key" where
  "normalize_key Key_ctrl_r = Key_ctrl_l"
| "normalize_key Key_shift_r = Key_shift_l"
| "normalize_key Key_alt_r = Key_alt_l"
| "normalize_key (KeyCode (Some char) vk) =
     (let char = (case char of
                    [c] \<Rightarrow> if code_point c < 32 then [char_of (code_point c + 97 - 1)] else [c]
                  | _ \<Rightarrow> char)
      in from_char (lower char))"
| "normalize_key (KeyCode None (Some vk)) =
     (if 65 \<le> vk \<and> vk \<le> 90 then from_char (lower [char_of vk]) else KeyCode None (Some vk))"
| "normalize_key key = key"

fun split_on :: "char \<Rightarrow> string \<Rightarrow> string list" where
  \<comment> \<open>\<open>s.split(sep)\<close> for a separator of one character\<close>
  "split_on sep [] = [[]]"
| "split_on sep (c # cs) =
     (if c = sep then [] # split_on sep cs
      else (case split_on sep cs of [] \<Rightarrow> [[c]] | w # ws \<Rightarrow> (c # w) # ws))"

definition key_map :: "(string \<times> key) list" where
  "key_map =
    [(''ctrl'', Key_ctrl_l), (''control'', Key_ctrl_l), (''alt'', Key_alt_l),
     (''shift'', Key_shift_l), (''space'', Key_space), (''enter'', Key_enter),
     (''return'', Key_enter), (''tab'', Key_tab), (''escape'', Key_esc), (''esc'', Key_esc),
     (''backspace'', Key_backspace), (''delete'', Key_delete), (''del'', Key_delete),
     (''insert'', Key_insert), (''home'', Key_home), (''end'', Key_end),
     (''pageup'', Key_page_up), (''pagedown'', Key_page_down),
     (''up'', Key_up), (''down'', Key_down), (''left'', Key_left), (''right'', Key_right),
     (''f1'', Key_f 1), (''f2'', Key_f 2), (''f3'', Key_f 3), (''f4'', Key_f 4),
     (''f5'', Key_f 5), (''f6'', Key_f 6), (''f7'', Key_f 7), (''f8'', Key_f 8),
     (''f9'', Key_f 9), (''f10'', Key_f 10), (''f11'', Key_f 11), (''f12'', Key_f 12)]"

definition parse_key :: "string \<Rightarrow> key option" where
  \<comment> \<open>\<open>FreeVoice._parse_key\<close>; \<open>None\<close> is the \<open>None\<close> it returns for a token it does not
      know\<close>
  "parse_key key_str =
     (let key_str = lower (strip key_str)
      in case map_of key_map key_str of
           Some key \<Rightarrow> Some key
         | None \<Rightarrow>
             if length key_str = 1 \<and> list_all is_alnum key_str
             then Some (from_char (lower key_str))
             else None)"

definition get_ptt_keys :: "string \<Rightarrow> key set" where
  "get_ptt_keys shortcut_ptt =
     (let keys = foldl (\<lambda>keys part. case parse_key part of
                                        Some key \<Rightarrow> insert key keys
                                      | None \<Rightarrow> keys)
                   {} (split_on CHR ''+'' shortcut_ptt)
      in if keys \<noteq> {} then keys else {Key_ctrl_l, Key_alt_l})"

definition get_lock_key :: "string \<Rightarrow> key" where
  "get_lock_key shortcut_lock =
     (case parse_key shortcut_lock of Some key \<Rightarrow> key | None \<Rightarrow> Key_space)"

definition get_cancel_key :: "string \<Rightarrow> key" where
  "get_cancel_key shortcut_cancel =
     (case parse_key shortcut_cancel of Some key \<Rightarrow> key | None \<Rightarrow> Key_esc)"

section \<open>The recording state machine (\<open>src/app.py\<close>, \<open>src/recorder.py\<close>)\<close>

text \<open>
  The application object is a record of its configuration, its flags, the fields of its
  recorder, and two fields of the model: \<open>pending\<close>, the number of pipeline threads
  started and not yet run, and \<open>trace\<close>, the calls made to the collaborators in order.
  The key handlers run one at a time on the listener thread.  The body of a pipeline
  thread is one step of the model: the only field it shares with the handlers is
  \<open>is_processing\<close>, which it writes once, at its end.  A captured audio file is
  identified with the chunks it holds.
\<close>

type_synonym audio = "nat list"

datatype effect =
    PlayStart | PlayStop
  | RecorderStart | RecorderStop
  | RemoveAudio audio
  | TrayIcon string
  | SpawnPipeline
  | Transcribe audio
  | DictionaryApply string
  | Scrub string
  | RecordStats string nat
  | TypeText string

record app =
  shortcut_ptt :: string
  shortcut_lock :: string
  shortcut_cancel :: string
  sounds_enabled :: bool
  language :: "string option"
  is_recording :: bool
  is_locked :: bool
  is_processing :: bool
  pressed_keys :: "key set"
  ptt_was_pressed :: bool
  last_transcript :: string
  dictionary_terms :: "string list"
  scrubber_enabled :: bool
  scrubber_fillers :: "string list"
  recorder_recording :: bool
  recorder_audio_data :: "nat list"
  recorder_last_duration :: nat
  pending :: nat
  trace :: "effect list"

definition emit :: "effect \<Rightarrow> app \<Rightarrow> app" where
  "emit e s = s\<lparr>trace := trace s @ [e]\<rparr>"

definition update_tray_icon :: "string \<Rightarrow> app \<Rightarrow> app" where
  "update_tray_icon state s = emit (TrayIcon state) s"

definition audio_callback :: "nat \<Rightarrow> app \<Rightarrow> app" where
  \<comment> \<open>\<open>AudioRecorder._audio_callback\<close>\<close>
  "audio_callback chunk s =
     (if recorder_recording s then s\<lparr>recorder_audio_data := recorder_audio_data s @ [chunk]\<rparr> else s)"

definition recorder_start :: "app \<Rightarrow> app" where
  \<comment> \<open>\<open>AudioRecorder.start\<close>\<close>
  "recorder_start s = emit RecorderStart (s\<lparr>recorder_audio_data := [], recorder_recording := True\<rparr>)"

definition recorder_stop :: "app \<Rightarrow> app \<times> audio option" where
  \<comment> \<open>\<open>AudioRecorder.stop\<close>: \<open>None\<close> when no audio was recorded\<close>
  "recorder_stop s =
     (let s = emit RecorderStop (s\<lparr>recorder_recording := False\<rparr>)
      in if recorder_audio_data s = [] then (s\<lparr>recorder_last_duration := 0\<rparr>, None)
         else (s\<lparr>recorder_last_duration := length (recorder_audio_data s)\<rparr>, Some (recorder_audio_data s)))"

definition is_ptt_pressed :: "app \<Rightarrow> bool" where
  "is_ptt_pressed s = (get_ptt_keys (shortcut_ptt s) \<subseteq> pressed_keys s)"

definition lock_recording :: "app \<Rightarrow> app" where
  "lock_recording s = update_tray_icon ''locked'' (s\<lparr>is_locked := True\<rparr>)"

definition start_recording :: "app \<Rightarrow> app" where
  "start_recording s =
     (if is_recording s then s
      else
        let s = s\<lparr>is_recording := True, is_locked := False\<rparr>;
            s = (if sounds_enabled s then emit PlayStart s else s);
            s = recorder_start s
        in update_tray_icon ''recording'' s)"

definition stop_recording :: "app \<Rightarrow> app" where
  \<comment> \<open>starting the thread adds one to \<open>pending\<close>\<close>
  "stop_recording s =
     (if \<not> is_recording s then s
      else
        let s = s\<lparr>is_recording := False, is_locked := False, is_processing := True\<rparr>;
            s = (if sounds_enabled s then emit PlayStop s else s);
            s = update_tray_icon ''processing'' s
        in emit SpawnPipeline (s\<lparr>pending := pending s + 1\<rparr>))"

definition cancel_recording :: "app \<Rightarrow> app" where
  "cancel_recording s =
     (if \<not> is_recording s then s
      else
        let s = s\<lparr>is_recording := False, is_locked := False\<rparr>;
            (s, audio_path) = recorder_stop s;
            s = (case audio_path of Some a \<Rightarrow> emit (RemoveAudio a) s | None \<Rightarrow> s)
        in update_tray_icon ''idle'' s)"

definition process_recording :: "(audio \<Rightarrow> string option \<Rightarrow> string option) \<Rightarrow> app \<Rightarrow> app" where
  \<comment> \<open>\<open>transcribe audio language\<close> stands for the recognizer: \<open>None\<close> when it raises,
      which the handler catches before the \<open>finally\<close> block\<close>
  "process_recording transcribe s =
     (let (s, audio_path) = recorder_stop s;
          s = (case audio_path of
                 None \<Rightarrow> s
               | Some a \<Rightarrow>
                   (case transcribe a (language s) of
                      None \<Rightarrow> emit (Transcribe a) s
                    | Some text \<Rightarrow>
                        let s = emit (Transcribe a) s
                        in if text = [] then s
                           else
                             let s = emit (DictionaryApply text) s;
                                 text = dictionary_apply (dictionary_terms s) text;
                                 s = emit (Scrub text) s;
                                 text = scrub (scrubber_enabled s) (scrubber_fillers s) text;
                                 s = s\<lparr>last_transcript := text\<rparr>;
                                 s = emit (RecordStats text (recorder_last_duration s)) s
                             in emit (TypeText text) s))
      in update_tray_icon ''idle'' (s\<lparr>is_processing := False\<rparr>))"

definition on_key_press :: "key \<Rightarrow> app \<Rightarrow> app" where
  "on_key_press raw s =
     (let key = normalize_key raw;
          s = s\<lparr>pressed_keys := insert key (pressed_keys s)\<rparr>
      in if key = get_cancel_key (shortcut_cancel s) \<and> is_recording s then cancel_recording s
         else
           let ptt_pressed = is_ptt_pressed s
           in if ptt_pressed
              then
                if key = get_lock_key (shortcut_lock s) \<and> is_recording s \<and> \<not> is_locked s
                then lock_recording s
                else if is_locked s \<and> \<not> ptt_was_pressed s then stop_recording s
                else
                  (let s = (if \<not> is_recording s \<and> \<not> is_processing s
                            then start_recording s else s)
                   in s\<lparr>ptt_was_pressed := ptt_pressed\<rparr>)
              else s\<lparr>ptt_was_pressed := ptt_pressed\<rparr>)"

definition on_key_release :: "key \<Rightarrow> app \<Rightarrow> app" where
  "on_key_release raw s =
     (let key = normalize_key raw;
          ptt_keys = get_ptt_keys (shortcut_ptt s);
          s = (if is_recording s \<and> \<not> is_locked s
               then (if key \<in> ptt_keys then stop_recording s else s)
               else s);
          s = s\<lparr>pressed_keys := pressed_keys s - {key}\<rparr>
      in s\<lparr>ptt_was_pressed := is_ptt_pressed s\<rparr>)"

datatype event = Press key | Release key | AudioChunk nat | PipelineRun

fun step :: "(audio \<Rightarrow> string option \<Rightarrow> string option) \<Rightarrow> app \<Rightarrow> event \<Rightarrow> app" where
  "step transcribe s (Press k) = on_key_press k s"
| "step transcribe s (Release k) = on_key_release k s"
| "step transcribe s (AudioChunk chunk) = audio_callback chunk s"
| "step transcribe s PipelineRun =
     (if pending s = 0 then s
      else process_recording transcribe (s\<lparr>pending := pending s - 1\<rparr>))"

definition run :: "(audio \<Rightarrow> string option \<Rightarrow> string option) \<Rightarrow> app \<Rightarrow> event list \<Rightarrow> app" where
  "run transcribe s events = foldl (step transcribe) s events"

definition startup :: app where
  \<comment> \<open>the application after \<open>__init__\<close> with no configuration file\<close>
  "startup =
     \<lparr>shortcut_ptt = ''Ctrl+Alt'', shortcut_lock = ''Space'', shortcut_cancel = ''Escape'',
      sounds_enabled = True, language = None,
      is_recording = False, is_locked = False, is_processing = False,
      pressed_keys = {}, ptt_was_pressed = False, last_transcript = [],
      dictionary_terms = [], scrubber_enabled = True,
      scrubber_fillers = [''um'', ''uh'', ''uhm'', ''uhh'', ''ah'', ''ahh'', ''er'', ''err'', ''hmm'',
                 ''hm'', ''mm'', ''mhm''],
      recorder_recording = False, recorder_audio_data = [], recorder_last_duration = 0,
      pending = 0, trace = []\<rparr>"

datatype session_state = Idle | Recording | Locked | Processing

definition session_state :: "app \<Rightarrow> session_state" where
  "session_state s =
     (if is_recording s then (if is_locked s then Locked else Recording)
      else if is_processing s then Processing else Idle)"

fun capture_step :: "nat \<Rightarrow> effect \<Rightarrow> nat" where
  "capture_step n RecorderStart = n + 1"
| "capture_step n RecorderStop = n - 1"
| "capture_step n e = n"

definition open_captures :: "effect list \<Rightarrow> nat" where
  \<comment> \<open>the captures started and not yet stopped, read off the trace\<close>
  "open_captures tr = foldl capture_step 0 tr"

definition consistent :: "app \<Rightarrow> bool" where
  \<comment> \<open>what every state reached from \<open>startup\<close> satisfies\<close>
  "consistent s =
     ((is_locked s \<longrightarrow> is_recording s)
      \<and> \<not> (is_recording s \<and> is_processing s)
      \<and> (is_processing s \<longleftrightarrow> pending s = 1)
      \<and> pending s \<le> 1
      \<and> (recorder_recording s \<longleftrightarrow> is_recording s \<or> is_processing s)
      \<and> open_captures (trace s) = (if recorder_recording s then 1 else 0))"

section \<open>Properties of the dictionary\<close>

text \<open>
  C10.  \<open>Dictionary.apply\<close> returns its input unchanged when the term list is empty or
  the input text is empty.
\<close>

theorem apply_identity_without_terms_or_text:
  "terms = [] \<or> text = [] \<Longrightarrow> dictionary_apply terms text = text"
  by (simp add: dictionary_apply_def)

theorem apply_identity_witness:
  "dictionary_apply [] ''I used get hub today'' = ''I used get hub today''
   \<and> dictionary_apply [''GitHub''] [] = []"
  using apply_identity_without_terms_or_text [of "[]" "''I used get hub today''"]
    apply_identity_without_terms_or_text [of "[''GitHub'']" "[]"]
  by simp

lemma in_find_matches:
  assumes "m \<in> set (find_matches_in_text terms text)"
  shows "\<exists>term phrase. term \<in> set terms \<and> m \<in> set (match_window text term phrase)"
  using assms by (auto simp: find_matches_in_text_def Let_def split: if_splits)

lemma in_match_window:
  assumes "(original, replacement, sim, start, end') \<in> set (match_window text term phrase)"
  shows "original = phrase \<and> replacement = term \<and> sim = phonetic_similarity phrase term
     \<and> threshold_for phrase term \<le> sim \<and> start = py_find (lower text) (lower phrase)
     \<and> 0 \<le> start \<and> end' = start + int (length phrase)"
  using assms by (auto simp: match_window_def Let_def split: if_splits)

lemma threshold_for_floor:
  "(length term \<le> 4 \<longrightarrow> 90 / 100 \<le> threshold_for phrase term)
   \<and> (length term \<le> 6 \<longrightarrow> 80 / 100 \<le> threshold_for phrase term)
   \<and> 75 / 100 \<le> threshold_for phrase term
   \<and> (length (split_ws phrase) = 1 \<longrightarrow> 85 / 100 \<le> threshold_for phrase term)
   \<and> (of_nat (length (remove_spaces phrase)) > of_nat (length term) * (15 / 10 :: rat)
        \<longrightarrow> 90 / 100 \<le> threshold_for phrase term)"
  by (simp add: threshold_for_def Let_def max_def)

lemma find_matches_get_hub:
  "find_matches_in_text [''GitHub''] ''get hub'' = [(''get hub'', ''GitHub'', 5 / 6, 0, 7)]"
  by code_simp

text \<open>
  C4.  Every candidate that \<open>_find_matches_in_text\<close> accepts carries the similarity of its
  window and term, and that similarity meets the floor of the term's length (0.90 up to
  four characters, 0.80 up to six, 0.75 beyond), 0.85 for a window of one word, and 0.90
  for a window whose length without spaces exceeds 1.5 times the term's length.
\<close>

theorem accepted_window_meets_floor:
  assumes "(phrase, term, sim, start, end') \<in> set (find_matches_in_text terms text)"
  shows "term \<in> set terms \<and> sim = phonetic_similarity phrase term
     \<and> (length term \<le> 4 \<longrightarrow> sim \<ge> 90 / 100)
     \<and> (length term \<le> 6 \<longrightarrow> sim \<ge> 80 / 100)
     \<and> sim \<ge> 75 / 100
     \<and> (length (split_ws phrase) = 1 \<longrightarrow> sim \<ge> 85 / 100)
     \<and> (of_nat (length (remove_spaces phrase)) > of_nat (length term) * (15 / 10 :: rat)
          \<longrightarrow> sim \<ge> 90 / 100)"
proof -
  from in_find_matches [OF assms] obtain t p where
    t: "t \<in> set terms" and mem: "(phrase, term, sim, start, end') \<in> set (match_window text t p)"
    by blast
  from in_match_window [OF mem] have eq: "phrase = p" "term = t"
    and sim: "sim = phonetic_similarity phrase term" and ge: "threshold_for phrase term \<le> sim"
    by simp_all
  from threshold_for_floor [of "term" phrase] ge t eq sim show ?thesis
    by (auto intro: order_trans)
qed

theorem accepted_window_meets_floor_witness:
  "(''get hub'', ''GitHub'', 5 / 6, 0, 7) \<in> set (find_matches_in_text [''GitHub''] ''get hub'')
   \<and> length ''GitHub'' \<le> 6 \<and> (5 / 6 :: rat) \<ge> 80 / 100
   \<and> phonetic_similarity ''get hub'' ''GitHub'' = 5 / 6"
proof -
  have mem: "(''get hub'', ''GitHub'', 5 / 6, 0, 7) \<in> set (find_matches_in_text [''GitHub''] ''get hub'')"
    by (simp add: find_matches_get_hub)
  from accepted_window_meets_floor [OF mem] mem show ?thesis
    by simp
qed

lemma lower_char_space: "lower_char c = CHR '' '' \<longleftrightarrow> c = CHR '' ''"
proof
  assume eq: "lower_char c = CHR '' ''"
  show "c = CHR '' ''"
  proof (cases "is_upper c")
    case True
    with eq have "char_of (of_char c + 32 :: nat) = CHR '' ''"
      by (simp add: lower_char_def code_point_def)
    then have "of_char (char_of (of_char c + 32 :: nat)) = (of_char (CHR '' '') :: nat)"
      by simp
    then have "(of_char c + 32 :: nat) mod 256 = 32"
      by simp
    with True show ?thesis
      by (simp add: is_upper_def code_point_def)
  next
    case False
    with eq show ?thesis by (simp add: lower_char_def)
  qed
next
  assume "c = CHR '' ''"
  then show "lower_char c = CHR '' ''"
    by (simp add: lower_char_def is_upper_def code_point_def)
qed

lemma remove_spaces_lower:
  "CHR '' '' \<notin> set term \<Longrightarrow> remove_spaces (lower term) = lower term"
  by (induction "term") (auto simp: remove_spaces_def lower_def lower_char_space)

text \<open>
  C2, as amended.  The similarity of a text and a term is the greater of the ratio of
  their phonetic forms and the ratio of the text, lower-cased with its spaces removed, to
  the term, lower-cased with its spaces kept.  For a term without a space the second
  ratio is the one between the two space-free lower-case forms.
\<close>

theorem phonetic_similarity_is_max:
  "phonetic_similarity text term
     = max (ratio (to_phonetic text) (to_phonetic term))
           (ratio (remove_spaces (lower text)) (lower term))
   \<and> (CHR '' '' \<notin> set term \<longrightarrow>
        phonetic_similarity text term
          = max (ratio (to_phonetic text) (to_phonetic term))
                (ratio (remove_spaces (lower text)) (remove_spaces (lower term))))"
  by (simp add: phonetic_similarity_def similarity_def Let_def remove_spaces_lower)

theorem phonetic_similarity_is_max_witness:
  "CHR '' '' \<notin> set ''GitHub''
   \<and> phonetic_similarity ''get hub'' ''GitHub''
       = max (ratio (to_phonetic ''get hub'') (to_phonetic ''GitHub''))
             (ratio (remove_spaces (lower ''get hub'')) (remove_spaces (lower ''GitHub'')))"
  using phonetic_similarity_is_max [of "''get hub''" "''GitHub''"] by simp

text \<open>
  C2 as stated fails for a term of several words: for the text \<open>the code\<close> and the term
  \<open>The Coder\<close> the phonetic ratio is 6/7, the ratio of \<open>thecode\<close> to \<open>thecoder\<close> is 14/15,
  and the code returns 7/8, the ratio of \<open>thecode\<close> to \<open>the coder\<close>.
\<close>

theorem raw_similarity_keeps_term_spaces:
  "phonetic_similarity ''the code'' ''The Coder''
     \<noteq> max (ratio (to_phonetic ''the code'') (to_phonetic ''The Coder''))
           (ratio (remove_spaces (lower ''the code'')) (remove_spaces (lower ''The Coder'')))
   \<and> phonetic_similarity ''the code'' ''The Coder'' = 7 / 8
   \<and> ratio (remove_spaces (lower ''the code'')) (remove_spaces (lower ''The Coder'')) = 14 / 15"
  by code_simp

lemma apply_match_skip_verbatim:
  assumes "lower original = lower replacement
     \<or> (length (split_ws (lower original)) > 1 \<and> lower replacement \<in> set (split_ws (lower original)))"
  shows "apply_match st (original, replacement, sim, start, end') = st"
  using assms
  by (cases st) (auto simp: apply_match_def contains_term_word_def Let_def list_ex_iff)

lemma foldl_apply_match_filter:
  assumes "\<And>st m. \<not> P m \<Longrightarrow> apply_match st m = st"
  shows "foldl apply_match st ms = foldl apply_match st (filter P ms)"
  by (induction ms arbitrary: st) (simp_all add: assms)

lemma apply_get_hub:
  "dictionary_apply [''GitHub''] ''I used get hub today'' = ''I used GitHub today''"
  by code_simp

lemma apply_github_present:
  "dictionary_apply [''GitHub''] ''I used GitHub today'' = ''I used GitHub today''"
  by code_simp

text \<open>
  The two tests that skip a candidate in the replacement loop.  A candidate whose
  original text is the term up to case, or whose original has several words one of which
  is the term up to case, leaves the result and the committed spans as they were, so the
  loop ends as it does on the list without such candidates.  With the term \<open>GitHub\<close>,
  \<open>apply\<close> turns \<open>I used get hub today\<close> into \<open>I used GitHub today\<close> and returns
  \<open>I used GitHub today\<close> unchanged.
\<close>

lemma verbatim_term_never_replaced:
  "(lower original = lower replacement
      \<or> (length (split_ws (lower original)) > 1
          \<and> lower replacement \<in> set (split_ws (lower original)))
     \<longrightarrow> apply_match st (original, replacement, sim, start, end') = st)
   \<and> apply_loop text ms
       = apply_loop text
           (filter (\<lambda>(original, replacement, sim, start, end').
              \<not> (lower original = lower replacement
                 \<or> (length (split_ws (lower original)) > 1
                     \<and> lower replacement \<in> set (split_ws (lower original))))) ms)
   \<and> dictionary_apply [''GitHub''] ''I used get hub today'' = ''I used GitHub today''
   \<and> dictionary_apply [''GitHub''] ''I used GitHub today'' = ''I used GitHub today''"
proof -
  have step: "apply_match st (original, replacement, sim, start, end') = st"
    if "lower original = lower replacement
      \<or> (length (split_ws (lower original)) > 1
          \<and> lower replacement \<in> set (split_ws (lower original)))"
    for st original replacement sim start end'
    using that by (rule apply_match_skip_verbatim)
  have loop: "apply_loop text ms
       = apply_loop text
           (filter (\<lambda>(original, replacement, sim, start, end').
              \<not> (lower original = lower replacement
                 \<or> (length (split_ws (lower original)) > 1
                     \<and> lower replacement \<in> set (split_ws (lower original))))) ms)"
    unfolding apply_loop_def
    by (rule foldl_apply_match_filter) (auto intro: step)
  from step loop apply_get_hub apply_github_present show ?thesis
    by blast
qed

lemma verbatim_term_never_replaced_witness:
  "lower ''GITHUB'' = lower ''GitHub''
   \<and> apply_match (''I used GITHUB today'', []) (''GITHUB'', ''GitHub'', 1, 7, 13)
       = (''I used GITHUB today'', [])
   \<and> length (split_ws (lower ''to GitHub'')) > 1
   \<and> lower ''GitHub'' \<in> set (split_ws (lower ''to GitHub''))
   \<and> apply_match (''push to GitHub'', []) (''to GitHub'', ''GitHub'', 9 / 10, 5, 14)
       = (''push to GitHub'', [])"
proof -
  have a: "lower ''GITHUB'' = lower ''GitHub''"
    by code_simp
  have b: "length (split_ws (lower ''to GitHub'')) > 1
      \<and> lower ''GitHub'' \<in> set (split_ws (lower ''to GitHub''))"
    by code_simp
  from a b
    verbatim_term_never_replaced [of "''GITHUB''" "''GitHub''" "(''I used GITHUB today'', [])" 1 7 13]
    verbatim_term_never_replaced [of "''to GitHub''" "''GitHub''" "(''push to GitHub'', [])" "9 / 10" 5 14]
  show ?thesis by blast
qed

lemma ranked_visual_studio:
  "ranked (find_matches_in_text [''Visual Studio''] ''I work in Visual Studio'')
    = [(''Visual Studio'', ''Visual Studio'', 1, 10, 23),
       (''in Visual Studio'', ''Visual Studio'', 12 / 13, 7, 23),
       (''work in Visual Studio'', ''Visual Studio'', 4 / 5, 2, 23)]"
  by code_simp

text \<open>
  C5.  \<open>Dictionary.apply\<close> does replace windows that hold the term verbatim.  With the
  term \<open>Visual Studio\<close> and the text \<open>I work in Visual Studio\<close> the exact candidate is
  skipped without committing its span; the next candidate, \<open>in Visual Studio\<close>, has no
  single word equal to the two-word term, passes the word test and is replaced, so the
  word \<open>in\<close> is lost.  With the term \<open>GitHub\<close> and the text \<open>I used GitHub.\<close> the window
  \<open>GitHub.\<close> is replaced and the full stop is lost.
\<close>

theorem verbatim_term_window_replaced:
  "ranked (find_matches_in_text [''Visual Studio''] ''I work in Visual Studio'')
     = [(''Visual Studio'', ''Visual Studio'', 1, 10, 23),
        (''in Visual Studio'', ''Visual Studio'', 12 / 13, 7, 23),
        (''work in Visual Studio'', ''Visual Studio'', 4 / 5, 2, 23)]
   \<and> apply_loop ''I work in Visual Studio''
        (ranked (find_matches_in_text [''Visual Studio''] ''I work in Visual Studio''))
       = (''I work Visual Studio'', [(7, 23)])
   \<and> dictionary_apply [''Visual Studio''] ''I work in Visual Studio'' = ''I work Visual Studio''
   \<and> dictionary_apply [''GitHub''] ''I used GitHub.'' = ''I used GitHub''"
proof -
  have loop: "apply_loop ''I work in Visual Studio''
        [(''Visual Studio'', ''Visual Studio'', 1, 10, 23),
         (''in Visual Studio'', ''Visual Studio'', 12 / 13, 7, 23),
         (''work in Visual Studio'', ''Visual Studio'', 4 / 5, 2, 23)]
       = (''I work Visual Studio'', [(7, 23)])"
    by code_simp
  have nonempty: "find_matches_in_text [''Visual Studio''] ''I work in Visual Studio'' \<noteq> []"
    using ranked_visual_studio by (auto simp: ranked_def)
  have studio: "dictionary_apply [''Visual Studio''] ''I work in Visual Studio''
       = ''I work Visual Studio''"
    using nonempty by (simp add: dictionary_apply_def Let_def ranked_visual_studio loop)
  have github: "dictionary_apply [''GitHub''] ''I used GitHub.'' = ''I used GitHub''"
    by code_simp
  from ranked_visual_studio loop studio github show ?thesis
    by simp
qed

lemma overlaps_applied_iff:
  "overlaps_applied start end' applied \<longleftrightarrow> (\<exists>s \<in> set applied. \<not> no_overlap s (start, end'))"
  by (auto simp: overlaps_applied_def no_overlap_def list_ex_iff split_beta)

lemma apply_match_applied:
  "snd (apply_match (result, applied) (original, replacement, sim, start, end')) = applied
   \<or> (\<not> overlaps_applied start end' applied
      \<and> snd (apply_match (result, applied) (original, replacement, sim, start, end'))
          = applied @ [(start, end')])"
  by (simp add: apply_match_def Let_def)

lemma apply_match_disjoint:
  assumes "sorted_wrt no_overlap (snd st)" and "set (snd st) \<subseteq> S"
  shows "sorted_wrt no_overlap (snd (apply_match st m))
     \<and> set (snd (apply_match st m)) \<subseteq> insert (fst (snd (snd (snd m))), snd (snd (snd (snd m)))) S"
proof -
  obtain result applied where st: "st = (result, applied)" by (cases st)
  obtain original replacement sim start end' where m: "m = (original, replacement, sim, start, end')"
    by (cases m)
  from apply_match_applied [of result applied original replacement sim start end'] assms
  show ?thesis
    by (auto simp: st m sorted_wrt_append overlaps_applied_iff)
qed

lemma foldl_apply_match_disjoint:
  assumes "sorted_wrt no_overlap (snd st)" and "set (snd st) \<subseteq> S"
  shows "sorted_wrt no_overlap (snd (foldl apply_match st ms))
     \<and> set (snd (foldl apply_match st ms))
         \<subseteq> S \<union> (\<lambda>m. (fst (snd (snd (snd m))), snd (snd (snd (snd m))))) ` set ms"
  using assms
proof (induction ms arbitrary: st S)
  case Nil
  then show ?case by simp
next
  case (Cons m ms)
  from apply_match_disjoint [OF Cons.prems, of m]
  have "sorted_wrt no_overlap (snd (apply_match st m))"
    and "set (snd (apply_match st m)) \<subseteq> insert (fst (snd (snd (snd m))), snd (snd (snd (snd m)))) S"
    by simp_all
  from Cons.IH [OF this] show ?case
    by auto
qed

lemma apply_match_skip_overlap:
  assumes "(applied_start, applied_end) \<in> set applied"
    and "\<not> (end' \<le> applied_start \<or> start \<ge> applied_end)"
  shows "apply_match (result, applied) (original, replacement, sim, start, end') = (result, applied)"
  using assms by (auto simp: apply_match_def Let_def overlaps_applied_def list_ex_iff)

lemma ranked_three_terms:
  "ranked (find_matches_in_text [''GitHub'', ''GitLab'', ''GithubGitlab''] ''githubb gitlabbb'')
    = [(''githubb'', ''GitHub'', 1, 0, 7),
       (''githubb gitlabbb'', ''GithubGitlab'', 1, 0, 16),
       (''gitlabbb'', ''GitLab'', 1, 8, 16)]"
  by code_simp

text \<open>
  C1, as amended.  The spans that the replacement loop commits never overlap one
  another, each is the span of a candidate of the list, and a candidate whose span
  overlaps a span committed before it is skipped: the pass changes neither the result nor
  the committed spans.  This holds for the ranked candidates of any term list and text.
\<close>

theorem committed_spans_do_not_overlap:
  "(\<forall>i j. i < j \<and> j < length (snd (apply_loop text ms)) \<longrightarrow>
        snd (snd (apply_loop text ms) ! j) \<le> fst (snd (apply_loop text ms) ! i)
      \<or> fst (snd (apply_loop text ms) ! j) \<ge> snd (snd (apply_loop text ms) ! i))
   \<and> set (snd (apply_loop text ms))
        \<subseteq> (\<lambda>(original, replacement, sim, start, end'). (start, end')) ` set ms
   \<and> ((applied_start, applied_end) \<in> set applied
        \<and> \<not> (end' \<le> applied_start \<or> start \<ge> applied_end)
      \<longrightarrow> apply_match (result, applied) (original, replacement, sim, start, end')
           = (result, applied))"
proof -
  have "sorted_wrt no_overlap (snd (text, [] :: (int \<times> int) list))"
    and "set (snd (text, [] :: (int \<times> int) list)) \<subseteq> {}"
    by simp_all
  from foldl_apply_match_disjoint [OF this, of ms]
  have sorted: "sorted_wrt no_overlap (snd (apply_loop text ms))"
    and sub: "set (snd (apply_loop text ms))
        \<subseteq> (\<lambda>m. (fst (snd (snd (snd m))), snd (snd (snd (snd m))))) ` set ms"
    by (simp_all add: apply_loop_def)
  from sorted have "\<forall>i j. i < j \<and> j < length (snd (apply_loop text ms)) \<longrightarrow>
        snd (snd (apply_loop text ms) ! j) \<le> fst (snd (apply_loop text ms) ! i)
      \<or> fst (snd (apply_loop text ms) ! j) \<ge> snd (snd (apply_loop text ms) ! i)"
    by (simp add: sorted_wrt_iff_nth_less no_overlap_def)
  moreover from sub have "set (snd (apply_loop text ms))
        \<subseteq> (\<lambda>(original, replacement, sim, start, end'). (start, end')) ` set ms"
    by (auto simp: image_iff split_beta)
  ultimately show ?thesis
    using apply_match_skip_overlap [of applied_start applied_end applied end' start result
        original replacement sim]
    by blast
qed

theorem committed_spans_do_not_overlap_witness:
  "snd (apply_loop ''get hub'' [(''get hub'', ''GitHub'', 5 / 6, 0, 7), (''hub'', ''Hubb'', 1, 4, 7)])
     = [(0, 7)]
   \<and> (0, 7) \<in> set [(0 :: int, 7 :: int)] \<and> \<not> ((7 :: int) \<le> 0 \<or> (4 :: int) \<ge> 7)
   \<and> apply_match (''GitHub'', [(0, 7)]) (''hub'', ''Hubb'', 1, 4, 7) = (''GitHub'', [(0, 7)])"
proof -
  have loop: "snd (apply_loop ''get hub'' [(''get hub'', ''GitHub'', 5 / 6, 0, 7), (''hub'', ''Hubb'', 1, 4, 7)])
     = [(0, 7)]"
    by code_simp
  have hyp: "(0, 7) \<in> set [(0 :: int, 7 :: int)] \<and> \<not> ((7 :: int) \<le> 0 \<or> (4 :: int) \<ge> 7)"
    by simp
  from hyp committed_spans_do_not_overlap [of "''get hub''"
      "[(''get hub'', ''GitHub'', 5 / 6, 0, 7), (''hub'', ''Hubb'', 1, 4, 7)]"
      0 7 "[(0, 7)]" 7 4 "''GitHub''" "''hub''" "''Hubb''" 1]
  have "apply_match (''GitHub'', [(0, 7)]) (''hub'', ''Hubb'', 1, 4, 7) = (''GitHub'', [(0, 7)])"
    by blast
  with loop hyp show ?thesis by blast
qed

text \<open>
  C1 as stated fails where a skipped candidate overlaps a lower-ranked one.  With the
  terms \<open>GitHub\<close>, \<open>GitLab\<close> and \<open>GithubGitlab\<close> and the text \<open>githubb gitlabbb\<close> the
  whole phrase ranks above the second word and overlaps it; the phrase is skipped, since
  it overlaps the first word, and the lower-ranked second word is replaced.
\<close>

theorem lower_ranked_overlapping_candidate_applied:
  "ranked (find_matches_in_text [''GitHub'', ''GitLab'', ''GithubGitlab''] ''githubb gitlabbb'')
     = [(''githubb'', ''GitHub'', 1, 0, 7),
        (''githubb gitlabbb'', ''GithubGitlab'', 1, 0, 16),
        (''gitlabbb'', ''GitLab'', 1, 8, 16)]
   \<and> - match_score (''githubb gitlabbb'', ''GithubGitlab'', 1, 0, 16)
       > - match_score (''gitlabbb'', ''GitLab'', 1, 8, 16)
   \<and> \<not> ((16 :: int) \<le> 0 \<or> (8 :: int) \<ge> 16)
   \<and> apply_loop ''githubb gitlabbb''
        (ranked (find_matches_in_text [''GitHub'', ''GitLab'', ''GithubGitlab''] ''githubb gitlabbb''))
       = (''GitHub GitLab'', [(0, 7), (8, 16)])
   \<and> dictionary_apply [''GitHub'', ''GitLab'', ''GithubGitlab''] ''githubb gitlabbb''
       = ''GitHub GitLab''"
proof -
  have score: "- match_score (''githubb gitlabbb'', ''GithubGitlab'', 1, 0, 16)
       > - match_score (''gitlabbb'', ''GitLab'', 1, 8, 16)"
    by code_simp
  have loop: "apply_loop ''githubb gitlabbb''
        [(''githubb'', ''GitHub'', 1, 0, 7),
         (''githubb gitlabbb'', ''GithubGitlab'', 1, 0, 16),
         (''gitlabbb'', ''GitLab'', 1, 8, 16)]
       = (''GitHub GitLab'', [(0, 7), (8, 16)])"
    by code_simp
  have nonempty: "find_matches_in_text [''GitHub'', ''GitLab'', ''GithubGitlab''] ''githubb gitlabbb'' \<noteq> []"
    using ranked_three_terms by (auto simp: ranked_def)
  have "dictionary_apply [''GitHub'', ''GitLab'', ''GithubGitlab''] ''githubb gitlabbb''
       = ''GitHub GitLab''"
    using nonempty by (simp add: dictionary_apply_def Let_def ranked_three_terms loop)
  with score loop ranked_three_terms show ?thesis
    by simp
qed

section \<open>Properties of the scrubber\<close>

text \<open>
  C3, as amended.  With the scrubber enabled and the fillers \<open>um\<close> and \<open>uh\<close>, \<open>scrub\<close>
  turns \<open>Um, I think, uh, this works.\<close> into \<open>I think, this works.\<close>: each filler goes
  with the comma and the whitespace that follow it, and the comma before \<open>uh\<close> stays.
\<close>

theorem scrub_example:
  "scrub True [''um'', ''uh''] ''Um, I think, uh, this works.'' = ''I think, this works.''"
  by code_simp

theorem scrub_example_witness:
  "True \<and> ''Um, I think, uh, this works.'' \<noteq> []
   \<and> length (scrub True [''um'', ''uh''] ''Um, I think, uh, this works.'') = 20"
  using scrub_example by simp

text \<open>C3 as stated names a result without that comma, which \<open>scrub\<close> does not return.\<close>

theorem scrub_example_keeps_comma:
  "scrub True [''um'', ''uh''] ''Um, I think, uh, this works.'' \<noteq> ''I think this works.''"
  by code_simp

section \<open>Properties of shortcut parsing\<close>

lemma foldl_parse_key:
  "foldl (\<lambda>keys part. case parse_key part of Some key \<Rightarrow> insert key keys | None \<Rightarrow> keys) A parts
     = A \<union> {key. \<exists>token \<in> set parts. parse_key token = Some key}"
proof (induction parts arbitrary: A)
  case Nil
  show ?case by simp
next
  case (Cons part parts)
  show ?case
    by (cases "parse_key part") (auto simp: Cons.IH)
qed

text \<open>
  C6, as amended.  A shortcut string is split on \<open>+\<close>; each token is trimmed and
  lower-cased; a token found in the fixed table parses to its key and a single
  alphanumeric character to its character key; any other token parses to nothing (the
  \<open>None\<close> that \<open>_parse_key\<close> returns) and is dropped without an error.  The
  push-to-talk set is the set of the keys of the tokens that parse, and Ctrl+Alt when
  that set is empty.
\<close>

theorem shortcut_parsing:
  "(map_of key_map (lower (strip token)) = Some key \<longrightarrow> parse_key token = Some key)
   \<and> (parse_key token = None \<longleftrightarrow>
        lower (strip token) \<notin> fst ` set key_map
        \<and> \<not> (length (lower (strip token)) = 1 \<and> is_alnum (hd (lower (strip token)))))
   \<and> (lower (strip token) \<notin> fst ` set key_map \<and> lower (strip token) = [c] \<and> is_alnum c
        \<longrightarrow> parse_key token = Some (KeyCode (Some [lower_char c]) None))
   \<and> get_ptt_keys spec =
        (if {key. \<exists>token \<in> set (split_on CHR ''+'' spec). parse_key token = Some key} = {}
         then {Key_ctrl_l, Key_alt_l}
         else {key. \<exists>token \<in> set (split_on CHR ''+'' spec). parse_key token = Some key})"
proof -
  have known: "parse_key token = Some key" if "map_of key_map (lower (strip token)) = Some key"
    using that by (simp add: parse_key_def)
  have unknown: "map_of key_map (lower (strip token)) = None"
    if "lower (strip token) \<notin> fst ` set key_map"
    using that by (simp add: map_of_eq_None_iff)
  have none: "parse_key token = None \<longleftrightarrow>
        lower (strip token) \<notin> fst ` set key_map
        \<and> \<not> (length (lower (strip token)) = 1 \<and> is_alnum (hd (lower (strip token))))"
  proof (cases "map_of key_map (lower (strip token))")
    case None
    then have "lower (strip token) \<notin> fst ` set key_map"
      by (simp add: map_of_eq_None_iff)
    with None show ?thesis
      by (cases "lower (strip token)") (auto simp: parse_key_def Let_def)
  next
    case (Some k)
    then have "lower (strip token) \<in> fst ` set key_map"
      by (metis map_of_eq_None_iff option.distinct(1))
    with Some show ?thesis
      by (simp add: parse_key_def)
  qed
  have single: "parse_key token = Some (KeyCode (Some [lower_char c]) None)"
    if "lower (strip token) \<notin> fst ` set key_map" "lower (strip token) = [c]" "is_alnum c"
    using that unknown by (simp add: parse_key_def Let_def from_char_def lower_def)
  have ptt: "get_ptt_keys spec =
        (if {key. \<exists>token \<in> set (split_on CHR ''+'' spec). parse_key token = Some key} = {}
         then {Key_ctrl_l, Key_alt_l}
         else {key. \<exists>token \<in> set (split_on CHR ''+'' spec). parse_key token = Some key})"
    by (simp add: get_ptt_keys_def Let_def foldl_parse_key)
  from known none single ptt show ?thesis
    by blast
qed

theorem shortcut_parsing_witness:
  "map_of key_map (lower (strip '' Ctrl '')) = Some Key_ctrl_l
   \<and> parse_key '' Ctrl '' = Some Key_ctrl_l
   \<and> parse_key ''Foo'' = None
   \<and> lower (strip ''A'') \<notin> fst ` set key_map \<and> lower (strip ''A'') = ''a'' \<and> is_alnum CHR ''a''
   \<and> parse_key ''A'' = Some (KeyCode (Some ''a'') None)
   \<and> get_ptt_keys ''Ctrl+Alt'' = {Key_ctrl_l, Key_alt_l}
   \<and> get_ptt_keys ''Foo+Bar'' = {Key_ctrl_l, Key_alt_l}
   \<and> get_ptt_keys ''Shift+Foo'' = {Key_shift_l}"
proof -
  have a: "map_of key_map (lower (strip '' Ctrl '')) = Some Key_ctrl_l"
    by code_simp
  have b: "lower (strip ''A'') \<notin> fst ` set key_map \<and> lower (strip ''A'') = ''a'' \<and> is_alnum CHR ''a''"
    by code_simp
  have c: "lower_char CHR ''a'' = CHR ''a''"
    by code_simp
  have d: "parse_key ''Foo'' = None \<and> get_ptt_keys ''Ctrl+Alt'' = {Key_ctrl_l, Key_alt_l}
     \<and> get_ptt_keys ''Foo+Bar'' = {Key_ctrl_l, Key_alt_l} \<and> get_ptt_keys ''Shift+Foo'' = {Key_shift_l}"
    by code_simp
  from a shortcut_parsing [of "'' Ctrl ''" Key_ctrl_l "CHR ''a''" "''A''"] have "parse_key '' Ctrl '' = Some Key_ctrl_l"
    by blast
  moreover from b shortcut_parsing [of "''A''" Key_esc "CHR ''a''" "''A''"]
  have "parse_key ''A'' = Some (KeyCode (Some [lower_char CHR ''a'']) None)"
    by blast
  then have "parse_key ''A'' = Some (KeyCode (Some ''a'') None)"
    by (simp only: c)
  ultimately show ?thesis
    using a b d by blast
qed

text \<open>
  C6 as stated fails: an unknown token raises no error.  In \<open>Ctlr+Alt\<close> the token
  \<open>Ctlr\<close> is no known name, and the push-to-talk set is the one of \<open>Alt\<close> alone,
  neither an error nor the default Ctrl+Alt.
\<close>

theorem unknown_token_dropped_without_error:
  "parse_key ''Ctlr'' = None
   \<and> get_ptt_keys ''Ctlr+Alt'' = {Key_alt_l}
   \<and> get_ptt_keys ''Ctlr+Alt'' = get_ptt_keys ''Alt''
   \<and> get_ptt_keys ''Ctlr+Alt'' \<noteq> {Key_ctrl_l, Key_alt_l}"
  by code_simp

section \<open>Properties of the recording state machine\<close>

lemma open_captures_append:
  "open_captures (tr @ es) = foldl capture_step (open_captures tr) es"
  by (simp add: open_captures_def)

lemma start_recording_eq:
  "\<not> is_recording s \<Longrightarrow>
   start_recording s
     = s\<lparr>is_recording := True, is_locked := False,
          recorder_audio_data := [], recorder_recording := True,
          trace := (if sounds_enabled s then trace s @ [PlayStart] else trace s)
                     @ [RecorderStart] @ [TrayIcon ''recording'']\<rparr>"
  by (simp add: start_recording_def recorder_start_def update_tray_icon_def emit_def Let_def)

lemma stop_recording_eq:
  "is_recording s \<Longrightarrow>
   stop_recording s
     = s\<lparr>is_recording := False, is_locked := False, is_processing := True,
          pending := pending s + 1,
          trace := (if sounds_enabled s then trace s @ [PlayStop] else trace s)
                     @ [TrayIcon ''processing''] @ [SpawnPipeline]\<rparr>"
  by (simp add: stop_recording_def update_tray_icon_def emit_def Let_def)

lemma stop_recording_idle: "\<not> is_recording s \<Longrightarrow> stop_recording s = s"
  by (simp add: stop_recording_def)

lemma cancel_recording_eq:
  "is_recording s \<Longrightarrow>
   cancel_recording s
     = s\<lparr>is_recording := False, is_locked := False,
          recorder_recording := False,
          recorder_last_duration := length (recorder_audio_data s),
          trace := (if recorder_audio_data s = [] then trace s @ [RecorderStop]
                    else trace s @ [RecorderStop] @ [RemoveAudio (recorder_audio_data s)])
                     @ [TrayIcon ''idle'']\<rparr>"
  by (simp add: cancel_recording_def recorder_stop_def update_tray_icon_def emit_def Let_def)

lemma lock_recording_eq:
  "lock_recording s = s\<lparr>is_locked := True, trace := trace s @ [TrayIcon ''locked'']\<rparr>"
  by (simp add: lock_recording_def update_tray_icon_def emit_def)

lemma is_ptt_pressed_held:
  "is_ptt_pressed (s\<lparr>pressed_keys := ks\<rparr>) = (get_ptt_keys (shortcut_ptt s) \<subseteq> ks)"
  by (simp add: is_ptt_pressed_def)

lemma consistent_keys [simp]:
  "consistent (s\<lparr>pressed_keys := ks\<rparr>) = consistent s"
  "consistent (s\<lparr>ptt_was_pressed := b\<rparr>) = consistent s"
  by (simp_all add: consistent_def)

lemma consistent_startup: "consistent startup"
  by (simp add: consistent_def startup_def open_captures_def)

lemma consistent_start:
  "consistent s \<Longrightarrow> \<not> is_recording s \<Longrightarrow> \<not> is_processing s \<Longrightarrow> consistent (start_recording s)"
  by (auto simp: start_recording_eq consistent_def open_captures_append)

lemma consistent_stop: "consistent s \<Longrightarrow> consistent (stop_recording s)"
  by (cases "is_recording s")
    (auto simp: stop_recording_eq stop_recording_idle consistent_def open_captures_append)

lemma consistent_cancel: "consistent s \<Longrightarrow> is_recording s \<Longrightarrow> consistent (cancel_recording s)"
  by (auto simp: cancel_recording_eq consistent_def open_captures_append)

lemma consistent_lock: "consistent s \<Longrightarrow> is_recording s \<Longrightarrow> consistent (lock_recording s)"
  by (auto simp: lock_recording_eq consistent_def open_captures_append)

lemma consistent_press: "consistent s \<Longrightarrow> consistent (on_key_press k s)"
  by (auto simp: on_key_press_def Let_def
      intro!: consistent_start consistent_stop consistent_cancel consistent_lock)

lemma consistent_release: "consistent s \<Longrightarrow> consistent (on_key_release k s)"
  by (auto simp: on_key_release_def Let_def intro!: consistent_stop)

lemma consistent_audio: "consistent s \<Longrightarrow> consistent (audio_callback chunk s)"
  by (auto simp: consistent_def audio_callback_def)

lemma process_recording_fields:
  "is_recording (process_recording transcribe s) = is_recording s"
  "is_locked (process_recording transcribe s) = is_locked s"
  "is_processing (process_recording transcribe s) = False"
  "pending (process_recording transcribe s) = pending s"
  "recorder_recording (process_recording transcribe s) = False"
  "open_captures (trace (process_recording transcribe s)) = open_captures (trace s) - 1"
  by (simp_all add: process_recording_def recorder_stop_def update_tray_icon_def emit_def Let_def
      open_captures_append split: option.split)

lemma consistent_pipeline:
  "consistent s \<Longrightarrow> 0 < pending s \<Longrightarrow>
   consistent (process_recording transcribe (s\<lparr>pending := pending s - Suc 0\<rparr>))"
  by (auto simp: consistent_def process_recording_fields)

lemma consistent_step: "consistent s \<Longrightarrow> consistent (step transcribe s e)"
  by (cases e) (simp_all add: consistent_press consistent_release consistent_audio consistent_pipeline)

lemma consistent_run: "consistent s \<Longrightarrow> consistent (run transcribe s events)"
  unfolding run_def
  by (induction events arbitrary: s) (simp_all add: consistent_step)

lemma press_no_start:
  "is_recording s \<or> is_processing s \<Longrightarrow>
   RecorderStart \<notin> set (drop (length (trace s)) (trace (on_key_press k s)))"
  by (cases "is_recording s")
    (auto simp: on_key_press_def Let_def cancel_recording_eq lock_recording_eq
      stop_recording_eq stop_recording_idle)

lemma press_ignored:
  assumes "is_recording s \<or> is_processing s"
    and "\<not> (normalize_key k = get_cancel_key (shortcut_cancel s) \<and> is_recording s)"
    and "\<not> (get_ptt_keys (shortcut_ptt s) \<subseteq> insert (normalize_key k) (pressed_keys s)
           \<and> normalize_key k = get_lock_key (shortcut_lock s) \<and> is_recording s \<and> \<not> is_locked s)"
    and "\<not> (get_ptt_keys (shortcut_ptt s) \<subseteq> insert (normalize_key k) (pressed_keys s)
           \<and> is_locked s \<and> \<not> ptt_was_pressed s)"
  shows "on_key_press k s =
     s\<lparr>pressed_keys := insert (normalize_key k) (pressed_keys s),
       ptt_was_pressed := get_ptt_keys (shortcut_ptt s) \<subseteq> insert (normalize_key k) (pressed_keys s)\<rparr>"
  using assms by (auto simp: on_key_press_def Let_def is_ptt_pressed_held)

lemma press_cancel:
  assumes "is_recording s" and "normalize_key k = get_cancel_key (shortcut_cancel s)"
  shows "on_key_press k s
      = s\<lparr>pressed_keys := insert (normalize_key k) (pressed_keys s),
           is_recording := False, is_locked := False,
           recorder_recording := False,
           recorder_last_duration := length (recorder_audio_data s),
           trace := trace s @ [RecorderStop]
             @ (if recorder_audio_data s = [] then [] else [RemoveAudio (recorder_audio_data s)])
             @ [TrayIcon ''idle'']\<rparr>"
  using assms by (simp add: on_key_press_def Let_def cancel_recording_eq)

lemma press_idle_no_cancel:
  assumes "\<not> is_recording s"
  shows "RecorderStop \<notin> set (drop (length (trace s)) (trace (on_key_press k s)))
     \<and> RemoveAudio a \<notin> set (drop (length (trace s)) (trace (on_key_press k s)))"
  using assms
  by (auto simp: on_key_press_def Let_def start_recording_eq lock_recording_eq stop_recording_idle)

lemma press_idle_unheld:
  assumes "\<not> is_recording s"
    and "\<not> get_ptt_keys (shortcut_ptt s) \<subseteq> insert (normalize_key k) (pressed_keys s)"
  shows "on_key_press k s
           = s\<lparr>pressed_keys := insert (normalize_key k) (pressed_keys s), ptt_was_pressed := False\<rparr>"
  using assms by (simp add: on_key_press_def Let_def is_ptt_pressed_held)

lemma process_no_audio:
  assumes "recorder_audio_data s = []"
  shows "process_recording transcribe s
     = s\<lparr>recorder_recording := False, recorder_last_duration := 0, is_processing := False,
          trace := trace s @ [RecorderStop, TrayIcon ''idle'']\<rparr>"
  using assms
  by (simp add: process_recording_def recorder_stop_def update_tray_icon_def emit_def Let_def)

text \<open>
  C7, as amended.  Stopping a recording always sets the processing flag and starts the
  pipeline thread, before the capture is stopped.  When the capture then reports no
  audio, the run of that thread calls neither the recognizer nor the dictionary, the
  scrubber or the injector: it stops the recorder, clears the processing flag and sets
  the tray icon to idle, and nothing else changes.
\<close>

theorem no_audio_run_clears_processing:
  "(is_recording s \<longrightarrow>
      stop_recording s
        = s\<lparr>is_recording := False, is_locked := False, is_processing := True,
             pending := pending s + 1,
             trace := (if sounds_enabled s then trace s @ [PlayStop] else trace s)
                        @ [TrayIcon ''processing''] @ [SpawnPipeline]\<rparr>)
   \<and> (recorder_audio_data s = [] \<longrightarrow>
        process_recording transcribe s
          = s\<lparr>recorder_recording := False, recorder_last_duration := 0,
               is_processing := False,
               trace := trace s @ [RecorderStop, TrayIcon ''idle'']\<rparr>
        \<and> (\<not> is_recording s \<longrightarrow> session_state (process_recording transcribe s) = Idle))"
  using stop_recording_eq [of s] process_no_audio [of s transcribe]
  by (simp add: session_state_def)

theorem no_audio_run_clears_processing_witness:
  "is_recording (run (\<lambda>a l. Some ''hello'') startup [Press Key_ctrl_l, Press Key_alt_l])
   \<and> is_processing (stop_recording
        (run (\<lambda>a l. Some ''hello'') startup [Press Key_ctrl_l, Press Key_alt_l]))
   \<and> recorder_audio_data
        (run (\<lambda>a l. Some ''hello'') startup [Press Key_ctrl_l, Press Key_alt_l, Release Key_alt_l]) = []
   \<and> \<not> is_recording
        (run (\<lambda>a l. Some ''hello'') startup [Press Key_ctrl_l, Press Key_alt_l, Release Key_alt_l])
   \<and> session_state (process_recording (\<lambda>a l. Some ''hello'')
        (run (\<lambda>a l. Some ''hello'') startup [Press Key_ctrl_l, Press Key_alt_l, Release Key_alt_l]))
       = Idle"
proof -
  let ?t = "\<lambda>(a :: audio) (l :: string option). Some ''hello''"
  have rec: "is_recording (run ?t startup [Press Key_ctrl_l, Press Key_alt_l])"
    by code_simp
  have empty: "recorder_audio_data (run ?t startup [Press Key_ctrl_l, Press Key_alt_l, Release Key_alt_l]) = []"
    by code_simp
  have idle: "\<not> is_recording (run ?t startup [Press Key_ctrl_l, Press Key_alt_l, Release Key_alt_l])"
    by code_simp
  from rec no_audio_run_clears_processing [of "run ?t startup [Press Key_ctrl_l, Press Key_alt_l]"]
  have "is_processing (stop_recording (run ?t startup [Press Key_ctrl_l, Press Key_alt_l]))"
    by simp
  moreover from empty idle
    no_audio_run_clears_processing
      [of "run ?t startup [Press Key_ctrl_l, Press Key_alt_l, Release Key_alt_l]" ?t]
  have "session_state (process_recording ?t
        (run ?t startup [Press Key_ctrl_l, Press Key_alt_l, Release Key_alt_l])) = Idle"
    by blast
  ultimately show ?thesis
    using rec empty idle by blast
qed

text \<open>
  C7 as stated fails: releasing a push-to-talk key right after the start, with no audio
  captured, leaves the machine in Processing with one pipeline thread started; only the
  run of that thread returns it to Idle.
\<close>

theorem no_audio_still_spawns_pipeline:
  "recorder_audio_data
     (run (\<lambda>a l. Some ''hello'') startup [Press Key_ctrl_l, Press Key_alt_l, Release Key_alt_l]) = []
   \<and> session_state
       (run (\<lambda>a l. Some ''hello'') startup [Press Key_ctrl_l, Press Key_alt_l, Release Key_alt_l])
      = Processing
   \<and> pending
       (run (\<lambda>a l. Some ''hello'') startup [Press Key_ctrl_l, Press Key_alt_l, Release Key_alt_l])
      = 1
   \<and> trace
       (run (\<lambda>a l. Some ''hello'') startup [Press Key_ctrl_l, Press Key_alt_l, Release Key_alt_l])
      = [PlayStart, RecorderStart, TrayIcon ''recording'', PlayStop, TrayIcon ''processing'',
         SpawnPipeline]
   \<and> session_state
       (run (\<lambda>a l. Some ''hello'') startup
          [Press Key_ctrl_l, Press Key_alt_l, Release Key_alt_l, PipelineRun])
      = Idle"
  by code_simp

text \<open>
  C8.  In every state reached from a consistent one, and so from \<open>startup\<close>, at most one
  capture is open.  A key press that finds a recording active or the processing flag
  set starts no capture; unless it is a cancel, a lock or the stop of a locked
  recording, it changes nothing but the set of held keys and the remembered
  push-to-talk state.
\<close>

theorem one_recording_session:
  "(consistent s0 \<longrightarrow> open_captures (trace (run transcribe s0 events)) \<le> 1)
   \<and> open_captures (trace (run transcribe startup events)) \<le> 1
   \<and> (is_recording s \<or> is_processing s \<longrightarrow>
        RecorderStart \<notin> set (drop (length (trace s)) (trace (on_key_press k s))))
   \<and> ((is_recording s \<or> is_processing s)
        \<and> \<not> (normalize_key k = get_cancel_key (shortcut_cancel s) \<and> is_recording s)
        \<and> \<not> (get_ptt_keys (shortcut_ptt s) \<subseteq> insert (normalize_key k) (pressed_keys s)
              \<and> normalize_key k = get_lock_key (shortcut_lock s)
              \<and> is_recording s \<and> \<not> is_locked s)
        \<and> \<not> (get_ptt_keys (shortcut_ptt s) \<subseteq> insert (normalize_key k) (pressed_keys s)
              \<and> is_locked s \<and> \<not> ptt_was_pressed s)
      \<longrightarrow> on_key_press k s
            = s\<lparr>pressed_keys := insert (normalize_key k) (pressed_keys s),
                 ptt_was_pressed :=
                   get_ptt_keys (shortcut_ptt s) \<subseteq> insert (normalize_key k) (pressed_keys s)\<rparr>)"
proof -
  have bound: "open_captures (trace (run transcribe s' events)) \<le> 1" if "consistent s'" for s'
    using consistent_run [OF that, of transcribe events]
    by (simp add: consistent_def split: if_splits)
  from bound bound [OF consistent_startup] press_no_start [of s k] press_ignored [of s k]
  show ?thesis
    by blast
qed

theorem one_recording_session_witness:
  "consistent startup
   \<and> open_captures (trace (run (\<lambda>a l. None) startup
        [Press Key_ctrl_l, Press Key_alt_l, Press Key_ctrl_r, Release Key_alt_l, Press Key_alt_l])) \<le> 1
   \<and> is_processing (run (\<lambda>a l. None) startup [Press Key_ctrl_l, Press Key_alt_l, Release Key_alt_l])
   \<and> RecorderStart \<notin> set
        (drop (length (trace (run (\<lambda>a l. None) startup
                 [Press Key_ctrl_l, Press Key_alt_l, Release Key_alt_l])))
           (trace (on_key_press Key_alt_l (run (\<lambda>a l. None) startup
                 [Press Key_ctrl_l, Press Key_alt_l, Release Key_alt_l]))))
   \<and> on_key_press Key_alt_l (run (\<lambda>a l. None) startup
        [Press Key_ctrl_l, Press Key_alt_l, Release Key_alt_l])
      = (run (\<lambda>a l. None) startup [Press Key_ctrl_l, Press Key_alt_l, Release Key_alt_l])
          \<lparr>pressed_keys := {Key_alt_l, Key_ctrl_l}, ptt_was_pressed := True\<rparr>"
proof -
  let ?t = "\<lambda>(a :: audio) (l :: string option). None :: string option"
  let ?s = "run ?t startup [Press Key_ctrl_l, Press Key_alt_l, Release Key_alt_l]"
  have proc: "is_processing ?s"
    by code_simp
  have other: "\<not> (normalize_key Key_alt_l = get_cancel_key (shortcut_cancel ?s) \<and> is_recording ?s)
     \<and> \<not> (get_ptt_keys (shortcut_ptt ?s) \<subseteq> insert (normalize_key Key_alt_l) (pressed_keys ?s)
          \<and> normalize_key Key_alt_l = get_lock_key (shortcut_lock ?s)
          \<and> is_recording ?s \<and> \<not> is_locked ?s)
     \<and> \<not> (get_ptt_keys (shortcut_ptt ?s) \<subseteq> insert (normalize_key Key_alt_l) (pressed_keys ?s)
          \<and> is_locked ?s \<and> \<not> ptt_was_pressed ?s)"
    by code_simp
  have held: "insert (normalize_key Key_alt_l) (pressed_keys ?s) = {Key_alt_l, Key_ctrl_l}"
    by code_simp
  have ptt: "(get_ptt_keys (shortcut_ptt ?s) \<subseteq> insert (normalize_key Key_alt_l) (pressed_keys ?s)) = True"
    by code_simp
  note inst = one_recording_session [of startup ?t
      "[Press Key_ctrl_l, Press Key_alt_l, Press Key_ctrl_r, Release Key_alt_l, Press Key_alt_l]"
      ?s Key_alt_l]
  from inst consistent_startup have a: "open_captures (trace (run ?t startup
        [Press Key_ctrl_l, Press Key_alt_l, Press Key_ctrl_r, Release Key_alt_l, Press Key_alt_l])) \<le> 1"
    by blast
  from inst proc have b: "RecorderStart \<notin> set (drop (length (trace ?s)) (trace (on_key_press Key_alt_l ?s)))"
    by blast
  from inst proc other have "on_key_press Key_alt_l ?s
      = ?s\<lparr>pressed_keys := insert (normalize_key Key_alt_l) (pressed_keys ?s),
           ptt_was_pressed :=
             get_ptt_keys (shortcut_ptt ?s) \<subseteq> insert (normalize_key Key_alt_l) (pressed_keys ?s)\<rparr>"
    by blast
  then have "on_key_press Key_alt_l ?s
      = ?s\<lparr>pressed_keys := insert (normalize_key Key_alt_l) (pressed_keys ?s),
           ptt_was_pressed := True\<rparr>"
    by (simp only: ptt)
  then have c: "on_key_press Key_alt_l ?s
      = ?s\<lparr>pressed_keys := {Key_alt_l, Key_ctrl_l}, ptt_was_pressed := True\<rparr>"
    by (simp only: held)
  from consistent_startup a proc b c show ?thesis
    by blast
qed

text \<open>
  C9, as amended.  A press of the cancel key while a recording is active is handled
  before the push-to-talk state is looked at: the recording and lock flags are cleared,
  the recorder is stopped, the audio, if any, is removed, and the tray icon is set to
  idle; no pipeline thread is started and the recognizer is not called, so a machine
  that was Recording or Locked is Idle.  A press of the cancel key while no recording is
  active stops no capture and removes no audio, and, unless it completes the held
  push-to-talk combination, changes only the set of held keys and the remembered
  push-to-talk state.
\<close>

theorem cancel_key_press:
  "(is_recording s \<and> normalize_key k = get_cancel_key (shortcut_cancel s) \<longrightarrow>
      on_key_press k s
        = s\<lparr>pressed_keys := insert (normalize_key k) (pressed_keys s),
             is_recording := False, is_locked := False,
             recorder_recording := False,
             recorder_last_duration := length (recorder_audio_data s),
             trace := trace s @ [RecorderStop]
               @ (if recorder_audio_data s = [] then [] else [RemoveAudio (recorder_audio_data s)])
               @ [TrayIcon ''idle'']\<rparr>
      \<and> (\<not> is_processing s \<longrightarrow> session_state (on_key_press k s) = Idle))
   \<and> (\<not> is_recording s \<longrightarrow>
        RecorderStop \<notin> set (drop (length (trace s)) (trace (on_key_press k s)))
        \<and> RemoveAudio a \<notin> set (drop (length (trace s)) (trace (on_key_press k s))))
   \<and> (\<not> is_recording s
        \<and> \<not> get_ptt_keys (shortcut_ptt s) \<subseteq> insert (normalize_key k) (pressed_keys s)
      \<longrightarrow> on_key_press k s
            = s\<lparr>pressed_keys := insert (normalize_key k) (pressed_keys s),
                 ptt_was_pressed := False\<rparr>)"
proof -
  have cancel: "session_state (on_key_press k s) = Idle"
    if "is_recording s" "normalize_key k = get_cancel_key (shortcut_cancel s)" "\<not> is_processing s"
    using that by (simp add: press_cancel session_state_def)
  from cancel press_cancel [of s k] press_idle_no_cancel [of s k a] press_idle_unheld [of s k]
  show ?thesis
    by blast
qed

theorem cancel_key_press_witness:
  "is_recording (run (\<lambda>a l. None) startup [Press Key_ctrl_l, Press Key_alt_l, AudioChunk 7])
   \<and> normalize_key Key_esc = get_cancel_key (shortcut_cancel startup)
   \<and> session_state (run (\<lambda>a l. None) startup
        [Press Key_ctrl_l, Press Key_alt_l, AudioChunk 7, Press Key_esc]) = Idle
   \<and> trace (run (\<lambda>a l. None) startup [Press Key_ctrl_l, Press Key_alt_l, AudioChunk 7, Press Key_esc])
      = [PlayStart, RecorderStart, TrayIcon ''recording'', RecorderStop, RemoveAudio [7],
         TrayIcon ''idle'']
   \<and> \<not> is_recording startup
   \<and> \<not> get_ptt_keys (shortcut_ptt startup) \<subseteq> insert (normalize_key Key_esc) (pressed_keys startup)
   \<and> on_key_press Key_esc startup = startup\<lparr>pressed_keys := {Key_esc}, ptt_was_pressed := False\<rparr>"
proof -
  let ?t = "\<lambda>(a :: audio) (l :: string option). None :: string option"
  let ?s = "run ?t startup [Press Key_ctrl_l, Press Key_alt_l, AudioChunk 7]"
  have rec: "is_recording ?s \<and> normalize_key Key_esc = get_cancel_key (shortcut_cancel ?s)
      \<and> \<not> is_processing ?s"
    by code_simp
  have cfg: "normalize_key Key_esc = get_cancel_key (shortcut_cancel startup)"
    by code_simp
  have unfold: "run ?t startup [Press Key_ctrl_l, Press Key_alt_l, AudioChunk 7, Press Key_esc]
      = on_key_press Key_esc ?s"
    by (simp add: run_def)
  have tr: "trace (run ?t startup [Press Key_ctrl_l, Press Key_alt_l, AudioChunk 7, Press Key_esc])
      = [PlayStart, RecorderStart, TrayIcon ''recording'', RecorderStop, RemoveAudio [7],
         TrayIcon ''idle'']"
    by code_simp
  have idle: "\<not> is_recording startup
     \<and> \<not> get_ptt_keys (shortcut_ptt startup) \<subseteq> insert (normalize_key Key_esc) (pressed_keys startup)"
    by code_simp
  have held: "insert (normalize_key Key_esc) (pressed_keys startup) = {Key_esc}"
    by code_simp
  from rec cancel_key_press [of ?s Key_esc] have "session_state (on_key_press Key_esc ?s) = Idle"
    by blast
  then have a: "session_state (run ?t startup
        [Press Key_ctrl_l, Press Key_alt_l, AudioChunk 7, Press Key_esc]) = Idle"
    by (simp only: unfold)
  from idle cancel_key_press [of startup Key_esc]
  have "on_key_press Key_esc startup
      = startup\<lparr>pressed_keys := insert (normalize_key Key_esc) (pressed_keys startup),
                ptt_was_pressed := False\<rparr>"
    by blast
  then have b: "on_key_press Key_esc startup
      = startup\<lparr>pressed_keys := {Key_esc}, ptt_was_pressed := False\<rparr>"
    by (simp only: held)
  from rec cfg a tr idle b show ?thesis
    by blast
qed

text \<open>
  C9 as stated fails for a cancel key pressed while no recording is active: the key
  joins the set of held keys, and with the push-to-talk keys still held a second press
  of Escape, after the one that cancelled, starts a new recording.
\<close>

theorem cancel_key_while_idle_starts_recording:
  "get_cancel_key (shortcut_cancel startup) = Key_esc
   \<and> session_state (run (\<lambda>a l. None) startup [Press Key_ctrl_l, Press Key_alt_l, Press Key_esc])
      = Idle
   \<and> session_state (run (\<lambda>a l. None) startup
        [Press Key_ctrl_l, Press Key_alt_l, Press Key_esc, Press Key_esc])
      = Recording
   \<and> pressed_keys (on_key_press Key_esc startup) \<noteq> pressed_keys startup"
  by code_simp

end
